theory Spec2Isabelle
  imports Complex_Main "HOL-Library.AList" "HOL-Library.Sublist"
begin

section \<open>JavaScript values\<close>

text \<open>
  The primitives of the language, and values as finite trees: the view of a value that
  \<^verbatim>\<open>existy\<close>, \<^verbatim>\<open>dispatch\<close> and \<^verbatim>\<open>memoize\<close> (through \<^verbatim>\<open>JSON.stringify\<close>) take.
  A function is a leaf known by its identity only. Numbers are integers here: none of
  the structural operations computes with a number (\<^verbatim>\<open>generateScale\<close>, which does, is
  modelled over the rationals in its own section).
\<close>

datatype prim = Undefined | Null | Bool bool | Num int | Str string

datatype jv = P prim | JFun nat | JArr "jv list" | JObj "(string \<times> jv) list"

section \<open>existy\<close>

text \<open>
  \<^verbatim>\<open>function existy(test) { return test != null; }\<close>
  The loose comparison with \<^verbatim>\<open>null\<close> holds of \<^verbatim>\<open>null\<close> and \<^verbatim>\<open>undefined\<close> only.
\<close>

definition existy :: "jv \<Rightarrow> bool" where
  "existy test = (test \<noteq> P Null \<and> test \<noteq> P Undefined)"

section \<open>dispatch\<close>

text \<open>
  A handler is a JavaScript function: it may have effects, so it takes a state of its own
  and returns the new one with its result. \<^verbatim>\<open>do_dispatch\<close> is the \<^verbatim>\<open>for\<close> loop over
  \<^verbatim>\<open>fns[0] .. fns[size - 1]\<close>; \<^verbatim>\<open>ret\<close> is the loop's variable of that name, \<^verbatim>\<open>undefined\<close>
  before the first iteration. Each handler is applied to \<^verbatim>\<open>[target].concat(args)\<close>.
\<close>

type_synonym 's fn = "'s \<Rightarrow> jv list \<Rightarrow> jv \<times> 's"

fun do_dispatch :: "'s fn list \<Rightarrow> jv \<Rightarrow> jv list \<Rightarrow> jv \<Rightarrow> 's \<Rightarrow> jv \<times> 's" where
  "do_dispatch [] target args ret s = (ret, s)"
| "do_dispatch (fn # fns) target args ret s =
     (case fn s (target # args) of
        (ret', s') \<Rightarrow> if existy ret' then (ret', s') else do_dispatch fns target args ret' s')"

definition dispatch :: "'s fn list \<Rightarrow> jv \<Rightarrow> jv list \<Rightarrow> 's \<Rightarrow> jv \<times> 's" where
  "dispatch fns target args s = do_dispatch fns target args (P Undefined) s"

text \<open>
  Observing calls, as the repository's tests do with spies: \<open>spy i fn\<close> behaves as \<open>fn\<close>
  and appends \<open>(i, arguments)\<close> to a call log kept beside \<open>fn\<close>'s own state.
  \<open>results fns xs s\<close> are the results the handlers give when every one of them is called
  in turn on \<open>xs\<close>.
\<close>

definition spy :: "nat \<Rightarrow> 's fn \<Rightarrow> ((nat \<times> jv list) list \<times> 's) fn" where
  "spy i fn = (\<lambda>(calls, s) xs. case fn s xs of (r, s') \<Rightarrow> (r, (calls @ [(i, xs)], s')))"

fun spies :: "nat \<Rightarrow> 's fn list \<Rightarrow> ((nat \<times> jv list) list \<times> 's) fn list" where
  "spies i [] = []"
| "spies i (fn # fns) = spy i fn # spies (Suc i) fns"

fun results :: "'s fn list \<Rightarrow> jv list \<Rightarrow> 's \<Rightarrow> jv list" where
  "results [] xs s = []"
| "results (fn # fns) xs s = (case fn s xs of (r, s') \<Rightarrow> r # results fns xs s')"

section \<open>generateScale\<close>

text \<open>
  \<^verbatim>\<open>generateScale(inputMin, inputMax, outputMin, outputMax)(x)\<close> over the rationals.
  JavaScript numbers are binary64 floats; the model is exact wherever every intermediate
  value is representable, which is so at the inputs examined below (small integers and
  7.5, with quotients 25/5, 50/5, 60/5, -10/5 and 0/5). With \<^verbatim>\<open>inputMin == inputMax\<close>
  the quotient is NaN or an infinity, which the rationals do not have: \<open>None\<close>.
\<close>

definition generateScale :: "rat \<Rightarrow> rat \<Rightarrow> rat \<Rightarrow> rat \<Rightarrow> rat \<Rightarrow> rat option" where
  "generateScale inputMin inputMax outputMin outputMax x =
     (let inputDiff = inputMax - inputMin;
          outputDiff = outputMax - outputMin
      in if inputDiff = 0 then None
         else let test = (outputDiff * (x - inputMin) / inputDiff) + outputMin
              in Some (if test < outputMin then outputMin
                       else if test > outputMax then outputMax
                       else test))"

section \<open>memoize\<close>

subsection \<open>JSON.stringify\<close>

text \<open>
  The cache key is \<^verbatim>\<open>JSON.stringify(arguments)\<close>. The serialization of the language is
  modelled on the value trees: \<open>None\<close> is the result \<^verbatim>\<open>undefined\<close> that \<^verbatim>\<open>undefined\<close> and
  functions serialize to; such a member of an object is left out, such an element of an
  array is written \<^verbatim>\<open>null\<close>. The members of an object are listed in the order of its own
  keys. Numbers are integers, written in decimal (as the language writes an integer
  below \<^verbatim>\<open>1e21\<close>); strings are lists of 8-bit characters, quoted with the escapes of the
  standard; \<^verbatim>\<open>toJSON\<close> methods are not modelled.
\<close>

definition digit :: "nat \<Rightarrow> char" where
  "digit n = ''0123456789abcdef'' ! n"

fun dec :: "nat \<Rightarrow> string" where
  "dec n = (if n < 10 then [digit n] else dec (n div 10) @ [digit (n mod 10)])"

declare dec.simps [simp del]

definition int_string :: "int \<Rightarrow> string" where
  "int_string i = (if i < 0 then CHR ''-'' # dec (nat (- i)) else dec (nat i))"

definition json_char :: "char \<Rightarrow> string" where
  "json_char c =
     (if c = CHR 0x22 then [CHR 0x5C, CHR 0x22]
      else if c = CHR 0x5C then [CHR 0x5C, CHR 0x5C]
      else if c = CHR 0x08 then [CHR 0x5C, CHR ''b'']
      else if c = CHR 0x0C then [CHR 0x5C, CHR ''f'']
      else if c = CHR 0x0A then [CHR 0x5C, CHR ''n'']
      else if c = CHR 0x0D then [CHR 0x5C, CHR ''r'']
      else if c = CHR 0x09 then [CHR 0x5C, CHR ''t'']
      else if of_char c < (0x20 :: nat)
        then [CHR 0x5C, CHR ''u'', CHR ''0'', CHR ''0'',
              digit (of_char c div 16), digit (of_char c mod 16)]
      else [c])"

definition quote :: "string \<Rightarrow> string" where
  "quote s = CHR 0x22 # concat (map json_char s) @ [CHR 0x22]"

fun join :: "string \<Rightarrow> string list \<Rightarrow> string" where
  "join sep [] = []"
| "join sep [x] = x"
| "join sep (x # y # ys) = x @ sep @ join sep (y # ys)"

fun json :: "jv \<Rightarrow> string option" where
  "json (P Undefined) = None"
| "json (P Null) = Some ''null''"
| "json (P (Bool b)) = Some (if b then ''true'' else ''false'')"
| "json (P (Num n)) = Some (int_string n)"
| "json (P (Str s)) = Some (quote s)"
| "json (JFun f) = None"
| "json (JArr xs) =
     Some (''['' @ join '','' (map (\<lambda>x. case json x of None \<Rightarrow> ''null'' | Some t \<Rightarrow> t) xs)
           @ '']'')"
| "json (JObj ps) =
     Some (''{'' @ join '',''
             (concat (map (\<lambda>(k, v). case json v of None \<Rightarrow> []
                                       | Some t \<Rightarrow> [quote k @ '':'' @ t]) ps))
           @ ''}'')"

text \<open>
  The \<^verbatim>\<open>arguments\<close> object of a call is an object, not an array: its own keys are the
  indices \<^verbatim>\<open>"0"\<close>, \<^verbatim>\<open>"1"\<close>, ... of the arguments passed. \<open>stringify v\<close> is the string
  that \<^verbatim>\<open>memo[JSON.stringify(v)]\<close> uses as property name (\<^verbatim>\<open>"undefined"\<close> for the result
  \<^verbatim>\<open>undefined\<close>, which an object never gives).
\<close>

definition arguments_object :: "jv list \<Rightarrow> jv" where
  "arguments_object args = JObj (zip (map dec [0 ..< length args]) args)"

definition stringify :: "jv \<Rightarrow> string" where
  "stringify v = (case json v of None \<Rightarrow> ''undefined'' | Some t \<Rightarrow> t)"

subsection \<open>The wrapper\<close>

text \<open>
  \<^verbatim>\<open>memo\<close> is the object \<^verbatim>\<open>{}\<close> of the closure; \<open>get memo key\<close> is \<^verbatim>\<open>memo[key]\<close>, which is
  \<^verbatim>\<open>undefined\<close> for a key never stored (every key starts with a brace, so no property
  inherited from \<^verbatim>\<open>Object.prototype\<close> is ever read). The wrapper's state is the memo
  together with the state of the wrapped function; \<^verbatim>\<open>memoize(fn)\<close> starts from the empty
  memo.
\<close>

type_synonym memo = "string \<rightharpoonup> jv"

definition get :: "memo \<Rightarrow> string \<Rightarrow> jv" where
  "get memo key = (case memo key of None \<Rightarrow> P Undefined | Some v \<Rightarrow> v)"

definition memoize :: "'s fn \<Rightarrow> (memo \<times> 's) fn" where
  "memoize fn = (\<lambda>(memo, s) arguments.
     let key = stringify (arguments_object arguments)
     in if get memo key = P Undefined
        then (case fn s arguments of
                (r, s') \<Rightarrow> let memo' = memo(key \<mapsto> r) in (get memo' key, (memo', s')))
        else (get memo key, (memo, s)))"

text \<open>The state after a sequence of calls of a function.\<close>

fun run :: "'s fn \<Rightarrow> 's \<Rightarrow> jv list list \<Rightarrow> 's" where
  "run f s [] = s"
| "run f s (xs # xss) = run f (snd (f s xs)) xss"

text \<open>
  Two functions to wrap: a stub that returns \<^verbatim>\<open>'a'\<close> at its first call and \<^verbatim>\<open>'b'\<close> later
  (its state counts the calls), and \<^verbatim>\<open>function (x) { return x; }\<close>.
\<close>

definition stub_a_b :: "nat fn" where
  "stub_a_b = (\<lambda>n xs. (if n = 0 then P (Str ''a'') else P (Str ''b''), Suc n))"

definition first_argument :: "unit fn" where
  "first_argument = (\<lambda>s xs. (case xs of [] \<Rightarrow> P Undefined | x # _ \<Rightarrow> x, s))"

section \<open>monad\<close>

text \<open>
  What the code raises is a value of the result: \<open>Inl\<close> of the error. \<open>TypeError\<close> and
  \<open>RangeError\<close> are the language's own (a call of something that is no function, a
  property read from \<^verbatim>\<open>null\<close>, the exhausted call stack); \<open>Error\<close> carries the message of a
  \<^verbatim>\<open>throw new Error(...)\<close>. \<open>Outside\<close> is no exception of the language: it marks a call
  whose arguments the data model of this development does not cover.
\<close>

datatype error = TypeError | RangeError | Error string | Outside

text \<open>
  The values the monad's functions see: primitives, functions (opaque, known by a
  number), and the instances made by \<^verbatim>\<open>unit\<close>. An instance is an object with own
  properties: \<^verbatim>\<open>bind\<close> and \<^verbatim>\<open>value\<close>, two closures over the \<^verbatim>\<open>value\<close> stored, which \<^verbatim>\<open>unit\<close>
  assigns, and whatever the modifier assigned on it before. \<open>Inst v own\<close> is the instance
  with \<open>v\<close> stored and with the table \<open>own\<close> of the properties from the modifier. Its
  prototype is the one shared object of the constructor, kept as a state of its own
  below. \<open>Blank\<close> is the instance as the modifier receives it: \<^verbatim>\<open>Object.create(prototype)\<close>
  before \<^verbatim>\<open>bind\<close> and \<^verbatim>\<open>value\<close> are assigned; it occurs nowhere else.
\<close>

datatype mv = Pm prim | Fn nat | Blank | Inst mv "(string \<times> mv) list"

type_synonym mfn = "mv list \<Rightarrow> error + mv"

text \<open>
  A modifier is called as \<^verbatim>\<open>modifier(monad, value)\<close> with the live instance. It returns
  the value to store; and it may assign properties on the instance, which stay: the
  second component of its result is the table of the own properties it has left on the
  instance. Modifiers that do more to the instance (seal it, replace its prototype,
  define accessors on it, write to the shared prototype through it) are not modelled.
  \<open>None\<close> is a \<^verbatim>\<open>modifier\<close> that is no function.
\<close>

type_synonym modifier = "(mv \<Rightarrow> mv \<Rightarrow> error + mv \<times> (string \<times> mv) list) option"

text \<open>
  The prototype: \<^verbatim>\<open>Object.create(null)\<close> with \<^verbatim>\<open>_is_monad = true\<close>, to which \<^verbatim>\<open>lift\<close>
  adds functions. It inherits nothing.
\<close>

datatype slot = Marker | Lifted mfn

type_synonym proto = "string \<rightharpoonup> slot"

definition monad_prototype :: proto where
  "monad_prototype = Map.empty(''_is_monad'' \<mapsto> Marker)"

text \<open>
  \<^verbatim>\<open>result && result._is_monad\<close>: a falsy result stops the conjunction; a truthy primitive
  and a function have no such property; an instance inherits the marker \<^verbatim>\<open>true\<close>, unless
  an own property of that name hides it.
\<close>

fun truthy :: "mv \<Rightarrow> bool" where
  "truthy (Pm Undefined) = False"
| "truthy (Pm Null) = False"
| "truthy (Pm (Bool b)) = b"
| "truthy (Pm (Num n)) = (n \<noteq> 0)"
| "truthy (Pm (Str s)) = (s \<noteq> [])"
| "truthy (Fn k) = True"
| "truthy Blank = True"
| "truthy (Inst v own) = True"

fun is_monad :: "mv \<Rightarrow> bool" where
  "is_monad (Pm p) = False"
| "is_monad (Fn k) = False"
| "is_monad Blank = True"
| "is_monad (Inst v own) =
     (case map_of own ''_is_monad'' of None \<Rightarrow> True | Some x \<Rightarrow> truthy x)"

text \<open>
  \<^verbatim>\<open>unit(value)\<close>: the modifier, when it is a function (\<open>Some\<close>), is called with the new
  instance and the value, and its result is the value stored. A modifier that returns
  the instance itself, or stores it in a property, makes a cyclic value: \<open>Outside\<close>.
\<close>

fun blank_free :: "mv \<Rightarrow> bool" where
  "blank_free (Pm p) = True"
| "blank_free (Fn k) = True"
| "blank_free Blank = False"
| "blank_free (Inst v own) = (blank_free v \<and> (\<forall>x \<in> set (map snd own). blank_free x))"

definition monad_unit :: "modifier \<Rightarrow> mv \<Rightarrow> error + mv" where
  "monad_unit modifier v =
     (case modifier of
        None \<Rightarrow> Inr (Inst v [])
      | Some m \<Rightarrow>
          (case m Blank v of
             Inl e \<Rightarrow> Inl e
           | Inr (v', own) \<Rightarrow>
               if blank_free (Inst v' own) then Inr (Inst v' own) else Inl Outside))"

text \<open>
  \<^verbatim>\<open>monad.bind(fn, args)\<close> and \<^verbatim>\<open>monad.value()\<close>, the own properties that \<^verbatim>\<open>unit\<close> assigns
  on an instance; \<open>args\<close> is the copied argument list (empty when \<^verbatim>\<open>args\<close> is absent).
  A primitive has neither; a function has the \<^verbatim>\<open>bind\<close> of all functions, which is not
  modelled.
\<close>

fun monad_bind :: "modifier \<Rightarrow> mv \<Rightarrow> mfn \<Rightarrow> mv list \<Rightarrow> error + mv" where
  "monad_bind modifier (Inst v own) fn args =
     (case fn (v # args) of
        Inl e \<Rightarrow> Inl e
      | Inr result \<Rightarrow> if is_monad result then Inr result else monad_unit modifier result)"
| "monad_bind modifier (Fn k) fn args = Inl Outside"
| "monad_bind modifier _ fn args = Inl TypeError"

fun monad_value :: "mv \<Rightarrow> error + mv" where
  "monad_value (Inst v own) = Inr v"
| "monad_value _ = Inl TypeError"

text \<open>
  \<^verbatim>\<open>unit.lift(name, fn)\<close> on the shared prototype: \<^verbatim>\<open>prototype[name]\<close> is truthy exactly
  when the name is there (the marker is \<^verbatim>\<open>true\<close>, a lifted operation is a function).
  The result is the prototype after the call.
\<close>

definition monad_lift :: "proto \<Rightarrow> string \<Rightarrow> mfn \<Rightarrow> error + proto" where
  "monad_lift prototype name fn =
     (if prototype name \<noteq> None
      then Inl (Error ([CHR 0x22] @ name @ [CHR 0x22] @ '' is already defined''))
      else Inr (prototype(name \<mapsto> Lifted fn)))"

text \<open>
  The function that \<^verbatim>\<open>lift\<close> stores, called on the instance \<open>this\<close>:
  \<^verbatim>\<open>var result = this.bind(fn, arguments); return result && result._is_monad ? result : unit(result);\<close>
\<close>

definition lifted :: "modifier \<Rightarrow> mfn \<Rightarrow> mv \<Rightarrow> mv list \<Rightarrow> error + mv" where
  "lifted modifier fn this arguments =
     (case monad_bind modifier this fn arguments of
        Inl e \<Rightarrow> Inl e
      | Inr result \<Rightarrow> if is_monad result then Inr result else monad_unit modifier result)"

text \<open>
  \<^verbatim>\<open>instance[name]\<close>: the own properties come before the prototype, \<^verbatim>\<open>bind\<close> and \<^verbatim>\<open>value\<close>
  as \<^verbatim>\<open>unit\<close> assigned them last. \<open>monad_call\<close> is the method call
  \<^verbatim>\<open>instance[name](...args)\<close> with values as arguments, at the current state of the shared
  prototype. A call of the own \<^verbatim>\<open>bind\<close> takes a function and an argument list, which are
  no values of this model: it is \<open>monad_bind\<close>, and \<open>Outside\<close> here. So is the call of a
  function that the modifier has put on the instance: the model has no body for it.
\<close>

datatype member = Own_bind | Own_value | Own mv | Inherited slot | Absent

definition member :: "proto \<Rightarrow> (string \<times> mv) list \<Rightarrow> string \<Rightarrow> member" where
  "member prototype own name =
     (if name = ''bind'' then Own_bind
      else if name = ''value'' then Own_value
      else case map_of own name of
             Some x \<Rightarrow> Own x
           | None \<Rightarrow> (case prototype name of None \<Rightarrow> Absent | Some x \<Rightarrow> Inherited x))"

fun monad_call :: "modifier \<Rightarrow> proto \<Rightarrow> mv \<Rightarrow> string \<Rightarrow> mv list \<Rightarrow> error + mv" where
  "monad_call modifier prototype (Inst v own) name args =
     (case member prototype own name of
        Own_bind \<Rightarrow> Inl Outside
      | Own_value \<Rightarrow> monad_value (Inst v own)
      | Own x \<Rightarrow> (case x of Fn k \<Rightarrow> Inl Outside | _ \<Rightarrow> Inl TypeError)
      | Inherited (Lifted fn) \<Rightarrow> lifted modifier fn (Inst v own) args
      | Inherited Marker \<Rightarrow> Inl TypeError
      | Absent \<Rightarrow> Inl TypeError)"
| "monad_call modifier prototype _ name args = Inl Outside"

text \<open>
  The string concatenation \<^verbatim>\<open>v + t\<close> for a string \<open>t\<close>. A primitive is converted to its
  string. An instance cannot be converted: its prototype chain ends at
  \<^verbatim>\<open>Object.create(null)\<close> and has neither \<^verbatim>\<open>toString\<close> nor \<^verbatim>\<open>valueOf\<close> (operations
  lifted under these two names are not considered; own properties of these names, and
  the source text that a function converts to, are outside the model).
\<close>

fun prim_string :: "prim \<Rightarrow> string" where
  "prim_string Undefined = ''undefined''"
| "prim_string Null = ''null''"
| "prim_string (Bool b) = (if b then ''true'' else ''false'')"
| "prim_string (Num n) = int_string n"
| "prim_string (Str s) = s"

fun plus_string :: "mv \<Rightarrow> string \<Rightarrow> error + mv" where
  "plus_string (Pm p) t = Inr (Pm (Str (prim_string p @ t)))"
| "plus_string (Fn k) t = Inl Outside"
| "plus_string Blank t = Inl TypeError"
| "plus_string (Inst v own) t =
     (if map_of own ''toString'' = None \<and> map_of own ''valueOf'' = None
      then Inl TypeError else Inl Outside)"

text \<open>
  The functions of the examples: the modifier of the repository's test,
  \<^verbatim>\<open>function (monad, value) { return value + ' - modified'; }\<close>; the one-parameter
  \<^verbatim>\<open>m => m + ' - modified'\<close>, whose parameter is bound to the first argument, the instance;
  the lifted \<^verbatim>\<open>v => v + ' - lifted'\<close>, whose parameter is the stored value; and a modifier
  that writes on the instance, \<^verbatim>\<open>function (m, v) { m.l = 'own'; return v; }\<close>.
\<close>

definition modifier_of_value :: "mv \<Rightarrow> mv \<Rightarrow> error + mv \<times> (string \<times> mv) list" where
  "modifier_of_value monad v =
     (case plus_string v '' - modified'' of Inl e \<Rightarrow> Inl e | Inr r \<Rightarrow> Inr (r, []))"

definition modifier_of_first :: "mv \<Rightarrow> mv \<Rightarrow> error + mv \<times> (string \<times> mv) list" where
  "modifier_of_first m v =
     (case plus_string m '' - modified'' of Inl e \<Rightarrow> Inl e | Inr r \<Rightarrow> Inr (r, []))"

definition add_lifted :: mfn where
  "add_lifted args = plus_string (case args of [] \<Rightarrow> Pm Undefined | v # _ \<Rightarrow> v) '' - lifted''"

definition modifier_assigning_l :: "mv \<Rightarrow> mv \<Rightarrow> error + mv \<times> (string \<times> mv) list" where
  "modifier_assigning_l m v = Inr (v, [(''l'', Pm (Str ''own''))])"

section \<open>clone, merge and reduce on the heap\<close>

text \<open>
  Arrays, objects and functions have identity and are mutable: a value is a primitive or
  a reference to a cell of the heap. An address is an index into the list of cells, and
  an allocation appends a cell. An array is the list of its elements; an object is the
  list of its own enumerable properties in the order in which they were created; a
  function is opaque.
\<close>

type_synonym addr = nat

datatype val = Prim prim | Ref addr

datatype cell = Arr "val list" | Obj "(string \<times> val) list" | Closure

type_synonym heap = "cell list"

definition cell_at :: "heap \<Rightarrow> addr \<Rightarrow> cell option" where
  "cell_at h a = (if a < length h then Some (h ! a) else None)"

text \<open>
  The tests of \<^verbatim>\<open>clone\<close>. Every object is an instance of \<^verbatim>\<open>Object\<close> or has the type
  \<^verbatim>\<open>'object'\<close> (one made by \<^verbatim>\<open>Object.create(null)\<close> is no instance, but has the type), so
  the disjunction of the two holds of every reference; \<^verbatim>\<open>typeof null\<close> is \<^verbatim>\<open>'object'\<close> too.
\<close>

definition instanceof_Array :: "heap \<Rightarrow> val \<Rightarrow> bool" where
  "instanceof_Array h v =
     (case v of Ref a \<Rightarrow> (case cell_at h a of Some (Arr xs) \<Rightarrow> True | _ \<Rightarrow> False)
              | Prim p \<Rightarrow> False)"

definition instanceof_Function :: "heap \<Rightarrow> val \<Rightarrow> bool" where
  "instanceof_Function h v =
     (case v of Ref a \<Rightarrow> (case cell_at h a of Some Closure \<Rightarrow> True | _ \<Rightarrow> False)
              | Prim p \<Rightarrow> False)"

definition instanceof_Object :: "heap \<Rightarrow> val \<Rightarrow> bool" where
  "instanceof_Object h v = (case v of Ref a \<Rightarrow> True | Prim p \<Rightarrow> False)"

definition typeof :: "heap \<Rightarrow> val \<Rightarrow> string" where
  "typeof h v =
     (case v of
        Prim Undefined \<Rightarrow> ''undefined''
      | Prim Null \<Rightarrow> ''object''
      | Prim (Bool b) \<Rightarrow> ''boolean''
      | Prim (Num n) \<Rightarrow> ''number''
      | Prim (Str s) \<Rightarrow> ''string''
      | Ref a \<Rightarrow> (if instanceof_Function h v then ''function'' else ''object''))"

text \<open>
  The language lists the own keys of an object with the array indices first, in
  ascending order, and the other keys after them in the order of their creation. An
  array index is the decimal numeral, without leading zeros, of a number below
  \<open>2 ^ 32 - 1\<close> (4294967295).
\<close>

definition digits_value :: "string \<Rightarrow> int" where
  "digits_value k = foldl (\<lambda>n c. 10 * n + (of_char c - 48)) 0 k"

definition index_of :: "string \<Rightarrow> int option" where
  "index_of k =
     (if k \<noteq> [] \<and> (\<forall>c \<in> set k. 48 \<le> (of_char c :: int) \<and> (of_char c :: int) \<le> 57)
         \<and> (k = ''0'' \<or> hd k \<noteq> CHR ''0'') \<and> digits_value k < 4294967295
      then Some (digits_value k) else None)"

definition key_order :: "string list \<Rightarrow> string list" where
  "key_order ks =
     sort_key (\<lambda>k. case index_of k of None \<Rightarrow> 0 | Some n \<Rightarrow> n)
       (filter (\<lambda>k. index_of k \<noteq> None) ks)
     @ filter (\<lambda>k. index_of k = None) ks"

text \<open>
  \<^verbatim>\<open>Object.keys(v)\<close> raises a TypeError for \<^verbatim>\<open>null\<close> and \<^verbatim>\<open>undefined\<close>. For the other
  primitives the result depends on the edition of the language, and a reference to no
  cell does not occur: \<open>Outside\<close>. \<open>get_prop h a prop\<close> is the read \<^verbatim>\<open>obj[prop]\<close> of an own
  property of the object at \<open>a\<close>, and \<open>own_prop\<close> the own property itself, if there is
  one.
\<close>

definition object_keys :: "heap \<Rightarrow> val \<Rightarrow> error + string list" where
  "object_keys h v =
     (case v of
        Prim Undefined \<Rightarrow> Inl TypeError
      | Prim Null \<Rightarrow> Inl TypeError
      | Prim p \<Rightarrow> Inl Outside
      | Ref a \<Rightarrow> (case cell_at h a of
                    Some (Obj ps) \<Rightarrow> Inr (key_order (map fst ps))
                  | Some (Arr xs) \<Rightarrow> Inr (map dec [0 ..< length xs])
                  | Some Closure \<Rightarrow> Inr []
                  | None \<Rightarrow> Inl Outside))"


definition get_prop :: "heap \<Rightarrow> addr \<Rightarrow> string \<Rightarrow> val" where
  "get_prop h a prop =
     (case cell_at h a of
        Some (Obj ps) \<Rightarrow> (case map_of ps prop of None \<Rightarrow> Prim Undefined | Some v \<Rightarrow> v)
      | _ \<Rightarrow> Prim Undefined)"

text \<open>
  \<open>set_prop h a prop v\<close> is the assignment \<^verbatim>\<open>obj[prop] = v\<close> on an object that inherits
  from \<^verbatim>\<open>Object.prototype\<close>, as the \<^verbatim>\<open>{}\<close> of \<^verbatim>\<open>cloneObj\<close> (and so \<^verbatim>\<open>newObj\<close>) does. A key
  that the object has keeps its place and gets the value; a new key is created after
  the others. The key \<^verbatim>\<open>__proto__\<close>, when the object has no own property of that name,
  is the accessor inherited from \<^verbatim>\<open>Object.prototype\<close>: the assignment runs its setter
  and creates no property. The setter ignores a primitive other than \<^verbatim>\<open>null\<close>; with
  \<^verbatim>\<open>null\<close> or an object it replaces the prototype of the object, after which what the
  code does depends on a prototype chain that is not represented: \<open>Outside\<close>. So is
  an assignment on anything but such an object.
\<close>

definition set_prop :: "heap \<Rightarrow> addr \<Rightarrow> string \<Rightarrow> val \<Rightarrow> error + heap" where
  "set_prop h a prop v =
     (case cell_at h a of
        Some (Obj ps) \<Rightarrow>
          if prop = ''__proto__'' \<and> map_of ps prop = None
          then (case v of
                  Prim p \<Rightarrow> if p = Null then Inl Outside else Inr h
                | Ref r \<Rightarrow> Inl Outside)
          else Inr (h[a := Obj (AList.update prop v ps)])
      | _ \<Rightarrow> Inl Outside)"

text \<open>
  \<^verbatim>\<open>obj_or_array.map(clone)\<close>: the elements are cloned from left to right, each call
  working on the heap the one before left.
\<close>

fun map_clone :: "(heap \<Rightarrow> val \<Rightarrow> error + heap \<times> val) \<Rightarrow> heap \<Rightarrow> val list
    \<Rightarrow> error + heap \<times> val list" where
  "map_clone f h [] = Inr (h, [])"
| "map_clone f h (x # xs) =
     (case f h x of
        Inl e \<Rightarrow> Inl e
      | Inr (h1, y) \<Rightarrow>
          (case map_clone f h1 xs of
             Inl e \<Rightarrow> Inl e
           | Inr (h2, ys) \<Rightarrow> Inr (h2, y # ys)))"

text \<open>
  The callback over \<^verbatim>\<open>Object.keys(obj_or_array)\<close>:
  \<^verbatim>\<open>cloneObj[prop] = clone(obj_or_array[prop])\<close>, with the object at \<open>src\<close> and \<^verbatim>\<open>cloneObj\<close>
  at \<open>dst\<close>.
\<close>

fun clone_props :: "(heap \<Rightarrow> val \<Rightarrow> error + heap \<times> val) \<Rightarrow> addr \<Rightarrow> addr \<Rightarrow> heap
    \<Rightarrow> string list \<Rightarrow> error + heap" where
  "clone_props f src dst h [] = Inr h"
| "clone_props f src dst h (prop # props) =
     (case f h (get_prop h src prop) of
        Inl e \<Rightarrow> Inl e
      | Inr (h1, v) \<Rightarrow>
          (case set_prop h1 dst prop v of
             Inl e \<Rightarrow> Inl e
           | Inr h2 \<Rightarrow> clone_props f src dst h2 props))"

text \<open>
  \<^verbatim>\<open>clone(obj_or_array)\<close>, with the branches of the source in their order. The first
  argument bounds the depth of the recursion, as the call stack of the engine does:
  where it is used up the call ends in a RangeError, which is how the unbounded
  recursion on a cyclic structure ends. The array that \<^verbatim>\<open>map\<close> returns and \<^verbatim>\<open>cloneObj\<close>
  are the cells allocated; a \<^verbatim>\<open>cloneObj\<close> that is not returned is garbage and is left out.
\<close>

fun clone :: "nat \<Rightarrow> heap \<Rightarrow> val \<Rightarrow> error + heap \<times> val" where
  "clone 0 h obj_or_array = Inl RangeError"
| "clone (Suc n) h obj_or_array =
     (if instanceof_Array h obj_or_array then
        (case obj_or_array of
           Ref a \<Rightarrow>
             (case cell_at h a of
                Some (Arr xs) \<Rightarrow>
                  (case map_clone (clone n) h xs of
                     Inl e \<Rightarrow> Inl e
                   | Inr (h1, ys) \<Rightarrow> Inr (h1 @ [Arr ys], Ref (length h1)))
              | _ \<Rightarrow> Inl Outside)
         | Prim p \<Rightarrow> Inl Outside)
      else if instanceof_Function h obj_or_array then Inr (h, obj_or_array)
      else if instanceof_Object h obj_or_array \<or> typeof h obj_or_array = ''object'' then
        (case object_keys h obj_or_array of
           Inl e \<Rightarrow> Inl e
         | Inr props \<Rightarrow>
             (case obj_or_array of
                Ref a \<Rightarrow>
                  (case clone_props (clone n) a (length h) (h @ [Obj []]) props of
                     Inl e \<Rightarrow> Inl e
                   | Inr h1 \<Rightarrow> Inr (h1, Ref (length h)))
              | Prim p \<Rightarrow> Inl Outside))
      else Inr (h, obj_or_array))"

text \<open>
  \<^verbatim>\<open>merge(obj, props)\<close> for two mappings, as its documentation has them
  (\<^verbatim>\<open>@param {Object}\<close>); other arguments are outside the model. The callback over
  \<^verbatim>\<open>Object.keys(props)\<close> is \<^verbatim>\<open>newObj[prop] = props[prop]\<close>.
\<close>

fun merge_props :: "addr \<Rightarrow> addr \<Rightarrow> heap \<Rightarrow> string list \<Rightarrow> error + heap" where
  "merge_props src dst h [] = Inr h"
| "merge_props src dst h (prop # props) =
     (case set_prop h dst prop (get_prop h src prop) of
        Inl e \<Rightarrow> Inl e
      | Inr h1 \<Rightarrow> merge_props src dst h1 props)"

definition is_mapping :: "heap \<Rightarrow> val \<Rightarrow> bool" where
  "is_mapping h v =
     (case v of Ref a \<Rightarrow> (case cell_at h a of Some (Obj ps) \<Rightarrow> True | _ \<Rightarrow> False)
              | Prim p \<Rightarrow> False)"

definition merge :: "nat \<Rightarrow> heap \<Rightarrow> val \<Rightarrow> val \<Rightarrow> error + heap \<times> val" where
  "merge n h obj props =
     (if is_mapping h obj \<and> is_mapping h props then
        (case clone n h obj of
           Inl e \<Rightarrow> Inl e
         | Inr (h1, newObj) \<Rightarrow>
             (case object_keys h1 props of
                Inl e \<Rightarrow> Inl e
              | Inr ks \<Rightarrow>
                  (case (props, newObj) of
                     (Ref p, Ref c) \<Rightarrow>
                       (case merge_props p c h1 ks of
                          Inl e \<Rightarrow> Inl e
                        | Inr h2 \<Rightarrow> Inr (h2, newObj))
                   | _ \<Rightarrow> Inl Outside)))
      else Inl Outside)"

text \<open>
  \<^verbatim>\<open>var reduce = Function.call.bind(Array);\<close> A call \<^verbatim>\<open>reduce(thisArg, ...args)\<close> is
  \<^verbatim>\<open>Array.call(thisArg, ...args)\<close>, and \<^verbatim>\<open>Array\<close> called as a function ignores \<^verbatim>\<open>this\<close> and
  makes a new array: of the given length when its one argument is a number (its absent
  elements read as \<^verbatim>\<open>undefined\<close>), of its arguments otherwise.
\<close>

definition Array_call :: "heap \<Rightarrow> val list \<Rightarrow> error + heap \<times> val" where
  "Array_call h args =
     (case args of
        [Prim (Num len)] \<Rightarrow>
          (if 0 \<le> len \<and> len < 2 ^ 32
           then Inr (h @ [Arr (replicate (nat len) (Prim Undefined))], Ref (length h))
           else Inl RangeError)
      | _ \<Rightarrow> Inr (h @ [Arr args], Ref (length h)))"

definition reduce :: "heap \<Rightarrow> val \<Rightarrow> val list \<Rightarrow> error + heap \<times> val" where
  "reduce h thisArg args = Array_call h args"


text \<open>
  A heap for examples: \<^verbatim>\<open>{a: 1, b: {c: 2}}\<close> at address 0 (its inner object at 1) and
  \<^verbatim>\<open>{b: [3]}\<close> at address 2 (its array at 3).
\<close>

definition heap_example :: heap where
  "heap_example =
     [Obj [(''a'', Prim (Num 1)), (''b'', Ref 1)], Obj [(''c'', Prim (Num 2))],
      Obj [(''b'', Ref 3)], Arr [Prim (Num 3)]]"


section \<open>Deep equality and sharing\<close>

text \<open>
  \<open>reify d h v\<close> unfolds the value \<open>v\<close> of the heap \<open>h\<close> into its tree, down to the
  depth \<open>d\<close>: the result is \<open>None\<close> when the value is deeper than \<open>d\<close> (a cyclic value is
  deeper than every \<open>d\<close>), refers to no cell, or has an object that lists a key twice.
  The members of an object come in the order in which the language lists its keys. A
  function unfolds to its address, so that two values have the same tree exactly when
  they are deep-equal with the same functions at the leaves. \<open>containers d h v\<close> are the
  addresses of the arrays and objects met on the way.
\<close>

fun reify :: "nat \<Rightarrow> heap \<Rightarrow> val \<Rightarrow> jv option" where
  "reify 0 h v = None"
| "reify (Suc d) h (Prim p) = Some (P p)"
| "reify (Suc d) h (Ref a) =
     (case cell_at h a of
        None \<Rightarrow> None
      | Some Closure \<Rightarrow> Some (JFun a)
      | Some (Arr xs) \<Rightarrow> map_option JArr (those (map (reify d h) xs))
      | Some (Obj ps) \<Rightarrow>
          (if distinct (map fst ps)
           then map_option (\<lambda>ts. JObj (zip (key_order (map fst ps)) ts))
                  (those (map (\<lambda>k. reify d h (get_prop h a k)) (key_order (map fst ps))))
           else None))"

fun containers :: "nat \<Rightarrow> heap \<Rightarrow> val \<Rightarrow> addr set" where
  "containers 0 h v = {}"
| "containers (Suc d) h (Prim p) = {}"
| "containers (Suc d) h (Ref a) =
     (case cell_at h a of
        None \<Rightarrow> {}
      | Some Closure \<Rightarrow> {}
      | Some (Arr xs) \<Rightarrow> insert a (\<Union>x \<in> set xs. containers d h x)
      | Some (Obj ps) \<Rightarrow> insert a (\<Union>x \<in> set (map snd ps). containers d h x))"

fun funs :: "jv \<Rightarrow> addr set" where
  "funs (P p) = {}"
| "funs (JFun a) = {a}"
| "funs (JArr ts) = (\<Union>t \<in> set ts. funs t)"
| "funs (JObj ps) = (\<Union>t \<in> set (map snd ps). funs t)"

fun null_free :: "jv \<Rightarrow> bool" where
  "null_free (P p) = (p \<noteq> Null)"
| "null_free (JFun a) = True"
| "null_free (JArr ts) = (\<forall>t \<in> set ts. null_free t)"
| "null_free (JObj ps) = (\<forall>t \<in> set (map snd ps). null_free t)"

text \<open>A tree in which no object has the key \<^verbatim>\<open>__proto__\<close>.\<close>

fun proto_free :: "jv \<Rightarrow> bool" where
  "proto_free (P p) = True"
| "proto_free (JFun a) = True"
| "proto_free (JArr ts) = (\<forall>t \<in> set ts. proto_free t)"
| "proto_free (JObj ps) =
     (''__proto__'' \<notin> set (map fst ps) \<and> (\<forall>t \<in> set (map snd ps). proto_free t))"

text \<open>
  Devices of the proof about \<^verbatim>\<open>clone\<close>. Two heaps agree on a range of addresses; the
  functions of a tree are functions in a heap; \<open>copy_of d lo h' v t\<close> says that \<open>v\<close>
  unfolds to \<open>t\<close> through containers in the range from \<open>lo\<close> to the end of \<open>h'\<close> only, in
  every heap that agrees with \<open>h'\<close> on that range; \<open>clones d f\<close> says that \<open>f\<close> makes such
  a copy, in cells it allocates, of every value that has a tree of depth \<open>d\<close> without
  \<^verbatim>\<open>null\<close> and without the key \<^verbatim>\<open>__proto__\<close>.
\<close>

definition agree :: "nat \<Rightarrow> nat \<Rightarrow> heap \<Rightarrow> heap \<Rightarrow> bool" where
  "agree lo hi h H = (\<forall>a. lo \<le> a \<and> a < hi \<longrightarrow> cell_at H a = cell_at h a)"

definition closures_at :: "heap \<Rightarrow> jv \<Rightarrow> bool" where
  "closures_at H t = (\<forall>a \<in> funs t. cell_at H a = Some Closure)"

definition copy_of :: "nat \<Rightarrow> nat \<Rightarrow> heap \<Rightarrow> val \<Rightarrow> jv \<Rightarrow> bool" where
  "copy_of d lo h' v t =
     (\<forall>H. agree lo (length h') h' H \<longrightarrow> closures_at H t \<longrightarrow>
          reify d H v = Some t \<and> containers d H v \<subseteq> {lo ..< length h'})"

definition clones :: "nat \<Rightarrow> (heap \<Rightarrow> val \<Rightarrow> error + heap \<times> val) \<Rightarrow> bool" where
  "clones d f =
     (\<forall>h x t. reify d h x = Some t \<longrightarrow> null_free t \<longrightarrow> proto_free t \<longrightarrow>
        (\<exists>h' y. f h x = Inr (h', y) \<and> prefix h h' \<and> copy_of d (length h) h' y t))"

section \<open>Properties of dispatch\<close>

lemma length_results [simp]: "length (results fns xs s) = length fns"
  by (induction fns arbitrary: s) (auto split: prod.splits)

lemma upt_shift: "[i ..< i + Suc m] = i # [Suc i ..< Suc i + m]"
  by (simp add: upt_conv_Cons)

lemma do_dispatch_spies:
  "do_dispatch (spies i fns) target args ret (calls, s) = (r, (calls', s')) \<Longrightarrow>
   k = length (takeWhile (\<lambda>x. \<not> existy x) (results fns (target # args) s)) \<Longrightarrow>
   calls' = calls @ map (\<lambda>j. (j, target # args)) [i ..< i + min (Suc k) (length fns)] \<and>
   (k < length fns \<longrightarrow> r = results fns (target # args) s ! k \<and> existy r) \<and>
   (k = length fns \<longrightarrow>
      r = (if fns = [] then ret else last (results fns (target # args) s)) \<and>
      (fns \<noteq> [] \<longrightarrow> \<not> existy r))"
proof (induction fns arbitrary: i ret calls s k)
  case Nil
  then show ?case by simp
next
  case (Cons fn fns)
  obtain r1 s1 where f: "fn s (target # args) = (r1, s1)"
    by (cases "fn s (target # args)")
  show ?case
  proof (cases "existy r1")
    case True
    with Cons.prems f show ?thesis
      by (simp add: spy_def)
  next
    case False
    let ?k = "length (takeWhile (\<lambda>x. \<not> existy x) (results fns (target # args) s1))"
    from Cons.prems(1) f False
    have run: "do_dispatch (spies (Suc i) fns) target args r1 (calls @ [(i, target # args)], s1)
                 = (r, (calls', s'))"
      by (simp add: spy_def)
    from Cons.prems(2) f False have k: "k = Suc ?k"
      by simp
    let ?rs = "results fns (target # args) s1"
    from Cons.IH [OF run refl]
    have ih1: "calls' = (calls @ [(i, target # args)]) @
                 map (\<lambda>j. (j, target # args)) [Suc i ..< Suc i + min (Suc ?k) (length fns)]"
      and ih2: "?k < length fns \<longrightarrow> r = ?rs ! ?k \<and> existy r"
      and ih3: "?k = length fns \<longrightarrow>
                  r = (if fns = [] then r1 else last ?rs) \<and> (fns \<noteq> [] \<longrightarrow> \<not> existy r)"
      by blast+
    have rs: "results (fn # fns) (target # args) s = r1 # ?rs"
      using f by simp
    have upt: "[i ..< i + min (Suc k) (length (fn # fns))]
                 = i # [Suc i ..< Suc i + min (Suc ?k) (length fns)]"
      using upt_shift [of i "min (Suc ?k) (length fns)"] by (simp add: k)
    have "calls' = calls @ map (\<lambda>j. (j, target # args)) [i ..< i + min (Suc k) (length (fn # fns))]"
      unfolding upt using ih1 by simp
    moreover have "k < length (fn # fns) \<longrightarrow>
        r = results (fn # fns) (target # args) s ! k \<and> existy r"
      unfolding rs k using ih2 by auto
    moreover have "k = length (fn # fns) \<longrightarrow>
        r = (if fn # fns = [] then ret else last (results (fn # fns) (target # args) s)) \<and>
        (fn # fns \<noteq> [] \<longrightarrow> \<not> existy r)"
    proof
      assume kl: "k = length (fn # fns)"
      then have kl': "?k = length fns" using k by simp
      show "r = (if fn # fns = [] then ret else last (results (fn # fns) (target # args) s)) \<and>
        (fn # fns \<noteq> [] \<longrightarrow> \<not> existy r)"
      proof (cases "fns = []")
        case True
        with ih3 kl' False show ?thesis unfolding rs by auto
      next
        case nonempty: False
        then have "?rs \<noteq> []"
          by (metis length_results length_0_conv)
        with ih3 kl' nonempty show ?thesis unfolding rs by auto
      qed
    qed
    ultimately show ?thesis by blast
  qed
qed

text \<open>The spies do not change what \<^verbatim>\<open>dispatch\<close> returns.\<close>

lemma do_dispatch_spies_result:
  "fst (do_dispatch (spies i fns) target args ret (calls, s))
     = fst (do_dispatch fns target args ret s)"
  by (induction fns arbitrary: i ret calls s) (auto simp: spy_def split: prod.splits)

lemma dispatch_spies_result:
  "fst (dispatch (spies 0 fns) target args ([], s)) = fst (dispatch fns target args s)"
  by (simp add: dispatch_def do_dispatch_spies_result)

text \<open>
  C5. \<^verbatim>\<open>dispatch(fn1, ..., fnN)(target, ...args)\<close> calls the handlers in order, each on
  \<^verbatim>\<open>(target, ...args)\<close>, up to and including the first one whose result is existy, and
  returns that result; the handlers before it have all been called. When no handler
  gives an existy result, all N are called and the result of the last one is returned
  (\<^verbatim>\<open>undefined\<close> for an empty handler list). Here \<open>k\<close> is the number of leading
  non-existy results and the log lists the calls made, in order.
\<close>

theorem dispatch_first_existy:
  "dispatch (spies 0 fns) target args ([], s) = (r, (calls, s')) \<Longrightarrow>
   k = length (takeWhile (\<lambda>x. \<not> existy x) (results fns (target # args) s)) \<Longrightarrow>
   calls = map (\<lambda>j. (j, target # args)) [0 ..< min (Suc k) (length fns)] \<and>
   (k < length fns \<longrightarrow> r = results fns (target # args) s ! k \<and> existy r) \<and>
   (k = length fns \<longrightarrow>
      \<not> existy r \<and>
      r = (if fns = [] then P Undefined else last (results fns (target # args) s)))"
  using do_dispatch_spies [of 0 fns target args "P Undefined" "[]" s r calls s' k]
  by (auto simp: dispatch_def existy_def)

theorem dispatch_first_existy_witness:
  "dispatch (spies 0 [\<lambda>s xs. (P Null, s), \<lambda>s xs. (P (Str ''MIDDLE CALLED''), s),
                      \<lambda>s xs. (P (Str ''LAST CALLED''), s)])
      (P (Str ''TEST MIDDLE'')) [] ([], ())
     = (P (Str ''MIDDLE CALLED''),
        ([(0, [P (Str ''TEST MIDDLE'')]), (1, [P (Str ''TEST MIDDLE'')])], ()))
   \<and> (1::nat) = length (takeWhile (\<lambda>x. \<not> existy x)
         (results [\<lambda>s xs. (P Null, s), \<lambda>s xs. (P (Str ''MIDDLE CALLED''), s),
                   \<lambda>s xs. (P (Str ''LAST CALLED''), s)] [P (Str ''TEST MIDDLE'')] ()))
   \<and> existy (P (Str ''MIDDLE CALLED''))"
  using dispatch_first_existy [of "[\<lambda>s xs. (P Null, s), \<lambda>s xs. (P (Str ''MIDDLE CALLED''), s),
                      \<lambda>s xs. (P (Str ''LAST CALLED''), s)]" "P (Str ''TEST MIDDLE'')" "[]" "()"
      "P (Str ''MIDDLE CALLED'')"
      "[(0, [P (Str ''TEST MIDDLE'')]), (1, [P (Str ''TEST MIDDLE'')])]" "()" 1]
  by (simp add: dispatch_def spy_def existy_def)

section \<open>Properties of generateScale\<close>

text \<open>
  C8. The scale \<^verbatim>\<open>generateScale(5, 10, 0, 10)\<close> maps 4 to 0, 5 to 0, 7.5 to a value
  strictly between 0 and 10, 10 to 10 and 11 to 10.
\<close>

theorem generateScale_5_10_0_10:
  "generateScale 5 10 0 10 4 = Some 0
   \<and> generateScale 5 10 0 10 5 = Some 0
   \<and> (\<exists>y. generateScale 5 10 0 10 (15 / 2) = Some y \<and> 0 < y \<and> y < 10)
   \<and> generateScale 5 10 0 10 10 = Some 10
   \<and> generateScale 5 10 0 10 11 = Some 10"
  by (simp add: generateScale_def Let_def)

section \<open>Properties of memoize\<close>

lemma memoize_returns_entry:
  "memoize fn (memo, s) xs = (r, (memo', s')) \<Longrightarrow>
   get memo' (stringify (arguments_object xs)) = r"
  by (auto simp: memoize_def Let_def get_def split: if_splits prod.splits)

lemma memoize_keeps_entry:
  "memoize fn (memo, s) xs = (r, (memo', s')) \<Longrightarrow> get memo key \<noteq> P Undefined \<Longrightarrow>
   get memo' key = get memo key"
  by (auto simp: memoize_def Let_def get_def split: if_splits prod.splits)

lemma run_keeps_entry:
  "run (memoize fn) (memo, s) xss = (memo', s') \<Longrightarrow> get memo key \<noteq> P Undefined \<Longrightarrow>
   get memo' key = get memo key"
proof (induction xss arbitrary: memo s)
  case Nil
  then show ?case by simp
next
  case (Cons xs xss)
  obtain r m1 s1 where st: "memoize fn (memo, s) xs = (r, (m1, s1))"
    by (metis prod.exhaust)
  have k: "get m1 key = get memo key"
    using memoize_keeps_entry [OF st Cons.prems(2)] .
  from Cons.prems(1) st have "run (memoize fn) (m1, s1) xss = (memo', s')"
    by simp
  from Cons.IH [OF this] k Cons.prems(2) show ?case by simp
qed

lemma memoize_hit:
  "get memo (stringify (arguments_object xs)) = r \<Longrightarrow> r \<noteq> P Undefined \<Longrightarrow>
   memoize fn (memo, s) xs = (r, (memo, s))"
  by (simp add: memoize_def)

lemma memoize_miss:
  "get memo (stringify (arguments_object xs)) = P Undefined \<Longrightarrow>
   memoize fn (memo, s) xs =
     (fst (fn s xs), (memo(stringify (arguments_object xs) \<mapsto> fst (fn s xs)), snd (fn s xs)))"
  by (simp add: memoize_def get_def split: prod.splits)

lemma memoize_spy_calls:
  "memoize (spy i fn) (memo, (calls, s)) xs = (r, (memo', (calls', s'))) \<Longrightarrow>
   calls' = (if get memo (stringify (arguments_object xs)) = P Undefined
             then calls @ [(i, xs)] else calls)"
  by (auto simp: memoize_def Let_def spy_def split: if_splits prod.splits)

text \<open>
  C4. Let a call of the wrapper with arguments \<open>xs\<close> return \<open>r\<close>, and let \<open>ys\<close> serialize
  to the same key. The wrapped function is called at that first call exactly when the
  memo has nothing defined at the key. If \<open>r\<close> is not \<^verbatim>\<open>undefined\<close>, then after any
  further calls of the wrapper a call with \<open>ys\<close> returns \<open>r\<close> and changes nothing: the
  wrapped function is not called again (its call log and its state stay as they are).
  If \<open>r\<close> is \<^verbatim>\<open>undefined\<close>, the next call with \<open>ys\<close> calls the wrapped function again and
  stores and returns its new result.
\<close>

theorem memoize_once_per_key:
  "memoize (spy 0 fn) (memo0, (calls0, s0)) xs = (r, (memo1, (calls1, s1))) \<Longrightarrow>
   stringify (arguments_object ys) = stringify (arguments_object xs) \<Longrightarrow>
   calls1 = (if get memo0 (stringify (arguments_object xs)) = P Undefined
             then calls0 @ [(0, xs)] else calls0) \<and>
   (r \<noteq> P Undefined \<longrightarrow>
      (\<forall>xss memo2 st2. run (memoize (spy 0 fn)) (memo1, (calls1, s1)) xss = (memo2, st2) \<longrightarrow>
         memoize (spy 0 fn) (memo2, st2) ys = (r, (memo2, st2)))) \<and>
   (r = P Undefined \<longrightarrow>
      memoize (spy 0 fn) (memo1, (calls1, s1)) ys =
        (fst (fn s1 ys),
         (memo1(stringify (arguments_object ys) \<mapsto> fst (fn s1 ys)),
          (calls1 @ [(0, ys)], snd (fn s1 ys)))))"
proof (intro conjI impI allI)
  assume a: "memoize (spy 0 fn) (memo0, (calls0, s0)) xs = (r, (memo1, (calls1, s1)))"
  from memoize_spy_calls [OF a]
  show "calls1 = (if get memo0 (stringify (arguments_object xs)) = P Undefined
             then calls0 @ [(0, xs)] else calls0)" .
next
  fix xss memo2 st2
  assume a: "memoize (spy 0 fn) (memo0, (calls0, s0)) xs = (r, (memo1, (calls1, s1)))"
    and k: "stringify (arguments_object ys) = stringify (arguments_object xs)"
    and r: "r \<noteq> P Undefined"
    and run: "run (memoize (spy 0 fn)) (memo1, (calls1, s1)) xss = (memo2, st2)"
  have "get memo1 (stringify (arguments_object xs)) = r"
    using memoize_returns_entry [OF a] .
  with run_keeps_entry [OF run, of "stringify (arguments_object xs)"] r
  have "get memo2 (stringify (arguments_object ys)) = r"
    by (simp add: k)
  from memoize_hit [OF this r] show "memoize (spy 0 fn) (memo2, st2) ys = (r, (memo2, st2))" .
next
  assume a: "memoize (spy 0 fn) (memo0, (calls0, s0)) xs = (r, (memo1, (calls1, s1)))"
    and k: "stringify (arguments_object ys) = stringify (arguments_object xs)"
    and r: "r = P Undefined"
  have "get memo1 (stringify (arguments_object ys)) = P Undefined"
    using memoize_returns_entry [OF a] r k by simp
  from memoize_miss [OF this, of "spy 0 fn" "(calls1, s1)"]
  show "memoize (spy 0 fn) (memo1, (calls1, s1)) ys =
        (fst (fn s1 ys),
         (memo1(stringify (arguments_object ys) \<mapsto> fst (fn s1 ys)),
          (calls1 @ [(0, ys)], snd (fn s1 ys))))"
    by (simp add: spy_def split: prod.splits)
qed

theorem memoize_once_per_key_witness:
  "memoize (spy 0 stub_a_b) (Map.empty, ([], 0)) []
     = (P (Str ''a''), (Map.empty(''{}'' \<mapsto> P (Str ''a'')), ([(0, [])], Suc 0)))
   \<and> stringify (arguments_object []) = stringify (arguments_object [])
   \<and> run (memoize (spy 0 stub_a_b)) (Map.empty(''{}'' \<mapsto> P (Str ''a'')), ([(0, [])], Suc 0)) [Nil]
       = (Map.empty(''{}'' \<mapsto> P (Str ''a'')), ([(0, [])], Suc 0))
   \<and> memoize (spy 0 stub_a_b) (Map.empty(''{}'' \<mapsto> P (Str ''a'')), ([(0, [])], Suc 0)) []
       = (P (Str ''a''), (Map.empty(''{}'' \<mapsto> P (Str ''a'')), ([(0, [])], Suc 0)))"
  using memoize_once_per_key [of stub_a_b Map.empty "[]" 0 "[]" "P (Str ''a'')"
      "Map.empty(''{}'' \<mapsto> P (Str ''a''))" "[(0, [])]" "Suc 0" "[]"]
  by (simp add: memoize_def spy_def stub_a_b_def get_def stringify_def arguments_object_def)

text \<open>
  C10. Argument lists that differ can serialize to the same key: \<^verbatim>\<open>(undefined)\<close> and
  \<^verbatim>\<open>(function () {})\<close> both give \<^verbatim>\<open>{}\<close>, as the empty list does. When the first result is
  \<^verbatim>\<open>undefined\<close> the entry is not shared: with \<^verbatim>\<open>function (x) { return x; }\<close> wrapped, the
  call with \<^verbatim>\<open>undefined\<close> stores \<^verbatim>\<open>undefined\<close>, and the colliding call with a function
  runs the wrapped function a second time and returns that function, not the first
  result.
\<close>

theorem memoize_undefined_collision_reruns:
  "[P Undefined] \<noteq> [JFun 0]
   \<and> stringify (arguments_object [P Undefined]) = ''{}''
   \<and> stringify (arguments_object [JFun 0]) = ''{}''
   \<and> memoize (spy 0 first_argument) (Map.empty, ([], ())) [P Undefined]
       = (P Undefined, (Map.empty(''{}'' \<mapsto> P Undefined), ([(0, [P Undefined])], ())))
   \<and> memoize (spy 0 first_argument)
        (Map.empty(''{}'' \<mapsto> P Undefined), ([(0, [P Undefined])], ())) [JFun 0]
       = (JFun 0, (Map.empty(''{}'' \<mapsto> JFun 0), ([(0, [P Undefined]), (0, [JFun 0])], ())))"
  by (simp add: memoize_def spy_def first_argument_def get_def stringify_def arguments_object_def
      dec.simps digit_def)
section \<open>Properties of monad\<close>

lemma lifted_eq_bind:
  "(\<And>r. monad_bind modifier this fn args = Inr r \<Longrightarrow> is_monad r) \<Longrightarrow>
   lifted modifier fn this args = monad_bind modifier this fn args"
  by (cases "monad_bind modifier this fn args") (simp_all add: lifted_def)

lemma monad_call_lifted:
  "name \<noteq> ''bind'' \<Longrightarrow> name \<noteq> ''value'' \<Longrightarrow> name \<notin> fst ` set own \<Longrightarrow>
   prototype name = Some (Lifted fn) \<Longrightarrow>
   monad_call modifier prototype (Inst v own) name args = lifted modifier fn (Inst v own) args"
proof -
  assume "name \<notin> fst ` set own"
  then have "map_of own name = None"
    by (simp add: map_of_eq_None_iff)
  moreover assume "name \<noteq> ''bind''" "name \<noteq> ''value''" "prototype name = Some (Lifted fn)"
  ultimately show ?thesis
    by (simp add: member_def)
qed

text \<open>
  C6, as stated. The one-parameter modifier \<^verbatim>\<open>m => m + ' - modified'\<close> is called as
  \<^verbatim>\<open>modifier(monad, value)\<close>: its \<^verbatim>\<open>m\<close> is the new instance, which has no string
  conversion, so \<^verbatim>\<open>monad(m => m + ' - modified')('x')\<close> raises a TypeError and has no
  \<^verbatim>\<open>value()\<close>.
\<close>

theorem monad_modifier_of_first_throws:
  "monad_unit (Some modifier_of_first) (Pm (Str ''x'')) = Inl TypeError"
  by (simp add: monad_unit_def modifier_of_first_def)

text \<open>
  C6, amended. With the two-parameter modifier
  \<^verbatim>\<open>(monad, value) => value + ' - modified'\<close>: \<^verbatim>\<open>unit('x').value()\<close> is \<^verbatim>\<open>'x - modified'\<close>;
  after \<^verbatim>\<open>unit.lift('l', v => v + ' - lifted')\<close> the call \<^verbatim>\<open>unit('x').l()\<close> gives an
  instance whose \<^verbatim>\<open>value()\<close> is \<^verbatim>\<open>'x - modified - lifted - modified'\<close>, the same instance
  that \<^verbatim>\<open>bind\<close> with that function gives: the function is applied to the stored value
  and its result, no monad, goes through \<^verbatim>\<open>unit\<close> and so through the modifier again.
\<close>

theorem monad_modified_lifted_modified:
  "monad_unit (Some modifier_of_value) (Pm (Str ''x''))
       = Inr (Inst (Pm (Str ''x - modified'')) [])
   \<and> monad_value (Inst (Pm (Str ''x - modified'')) []) = Inr (Pm (Str ''x - modified''))
   \<and> monad_lift monad_prototype ''l'' add_lifted
       = Inr (monad_prototype(''l'' \<mapsto> Lifted add_lifted))
   \<and> monad_call (Some modifier_of_value) (monad_prototype(''l'' \<mapsto> Lifted add_lifted))
         (Inst (Pm (Str ''x - modified'')) []) ''l'' []
       = Inr (Inst (Pm (Str ''x - modified - lifted - modified'')) [])
   \<and> monad_value (Inst (Pm (Str ''x - modified - lifted - modified'')) [])
       = Inr (Pm (Str ''x - modified - lifted - modified''))
   \<and> monad_bind (Some modifier_of_value) (Inst (Pm (Str ''x - modified'')) []) add_lifted []
       = Inr (Inst (Pm (Str ''x - modified - lifted - modified'')) [])"
  by (simp add: monad_unit_def modifier_of_value_def monad_lift_def monad_prototype_def
      member_def lifted_def add_lifted_def)

text \<open>
  C7, amended. A \<^verbatim>\<open>lift\<close> of a name that the shared prototype has raises the error
  \<^verbatim>\<open>"name" is already defined\<close>; so does a second \<^verbatim>\<open>lift\<close> of a name after a first one
  that succeeded. A \<^verbatim>\<open>lift\<close> of a name that the prototype does not have succeeds. On
  every instance of the constructor, whenever it was made, that has no own property of
  that name (\<^verbatim>\<open>bind\<close> and \<^verbatim>\<open>value\<close> are own properties of every instance, and the modifier
  may have assigned others), the call \<^verbatim>\<open>instance[name](...args)\<close> then runs the function
  that \<^verbatim>\<open>lift\<close> stored; and that call is \<^verbatim>\<open>instance.bind(fn, args)\<close> whenever what \<^verbatim>\<open>bind\<close>
  returns carries the marker.
\<close>

theorem monad_lift_conflict_or_added:
  "(prototype name \<noteq> None \<longrightarrow>
      monad_lift prototype name fn
        = Inl (Error ([CHR 0x22] @ name @ [CHR 0x22] @ '' is already defined''))) \<and>
   (prototype name = None \<longrightarrow>
      monad_lift prototype name fn = Inr (prototype(name \<mapsto> Lifted fn)) \<and>
      monad_lift (prototype(name \<mapsto> Lifted fn)) name fn'
        = Inl (Error ([CHR 0x22] @ name @ [CHR 0x22] @ '' is already defined'')) \<and>
      (\<forall>v own args.
         name \<noteq> ''bind'' \<and> name \<noteq> ''value'' \<and> name \<notin> fst ` set own \<longrightarrow>
           monad_call modifier (prototype(name \<mapsto> Lifted fn)) (Inst v own) name args
             = lifted modifier fn (Inst v own) args
           \<and> ((\<forall>r. monad_bind modifier (Inst v own) fn args = Inr r \<longrightarrow> is_monad r) \<longrightarrow>
                monad_call modifier (prototype(name \<mapsto> Lifted fn)) (Inst v own) name args
                  = monad_bind modifier (Inst v own) fn args)))"
proof (intro conjI impI allI)
  assume "prototype name \<noteq> None"
  then show "monad_lift prototype name fn
        = Inl (Error ([CHR 0x22] @ name @ [CHR 0x22] @ '' is already defined''))"
    by (simp add: monad_lift_def)
next
  assume "prototype name = None"
  then show "monad_lift prototype name fn = Inr (prototype(name \<mapsto> Lifted fn))"
    by (simp add: monad_lift_def)
next
  show "monad_lift (prototype(name \<mapsto> Lifted fn)) name fn'
        = Inl (Error ([CHR 0x22] @ name @ [CHR 0x22] @ '' is already defined''))"
    by (simp add: monad_lift_def)
next
  fix v and own :: "(string \<times> mv) list" and args
  assume n: "name \<noteq> ''bind'' \<and> name \<noteq> ''value'' \<and> name \<notin> fst ` set own"
  then have "name \<noteq> ''bind''" "name \<noteq> ''value''" "name \<notin> fst ` set own"
    by simp_all
  then show "monad_call modifier (prototype(name \<mapsto> Lifted fn)) (Inst v own) name args
             = lifted modifier fn (Inst v own) args"
    by (rule monad_call_lifted) simp
next
  fix v and own :: "(string \<times> mv) list" and args
  assume n: "name \<noteq> ''bind'' \<and> name \<noteq> ''value'' \<and> name \<notin> fst ` set own"
    and m: "\<forall>r. monad_bind modifier (Inst v own) fn args = Inr r \<longrightarrow> is_monad r"
  from n have "name \<noteq> ''bind''" "name \<noteq> ''value''" "name \<notin> fst ` set own"
    by simp_all
  then have "monad_call modifier (prototype(name \<mapsto> Lifted fn)) (Inst v own) name args
             = lifted modifier fn (Inst v own) args"
    by (rule monad_call_lifted) simp
  also from m have "\<dots> = monad_bind modifier (Inst v own) fn args"
    by (intro lifted_eq_bind) blast
  finally show "monad_call modifier (prototype(name \<mapsto> Lifted fn)) (Inst v own) name args
                  = monad_bind modifier (Inst v own) fn args" .
qed

theorem monad_lift_conflict_or_added_witness:
  "monad_prototype ''_is_monad'' \<noteq> None
   \<and> monad_lift monad_prototype ''_is_monad'' add_lifted
        = Inl (Error ([CHR 0x22] @ ''_is_monad'' @ [CHR 0x22] @ '' is already defined''))
   \<and> monad_prototype ''l'' = None
   \<and> ''l'' \<noteq> ''bind'' \<and> ''l'' \<noteq> ''value'' \<and> ''l'' \<notin> fst ` set ([] :: (string \<times> mv) list)
   \<and> monad_lift monad_prototype ''l'' add_lifted
        = Inr (monad_prototype(''l'' \<mapsto> Lifted add_lifted))
   \<and> monad_bind None (Inst (Pm (Str ''x'')) []) add_lifted []
        = Inr (Inst (Pm (Str ''x - lifted'')) [])
   \<and> is_monad (Inst (Pm (Str ''x - lifted'')) [])
   \<and> monad_call None (monad_prototype(''l'' \<mapsto> Lifted add_lifted)) (Inst (Pm (Str ''x'')) [])
        ''l'' []
        = Inr (Inst (Pm (Str ''x - lifted'')) [])"
  using monad_lift_conflict_or_added [of monad_prototype "''_is_monad''" add_lifted add_lifted None]
    monad_lift_conflict_or_added [of monad_prototype "''l''" add_lifted add_lifted None]
  by (simp add: monad_prototype_def add_lifted_def monad_unit_def lifted_def)

text \<open>
  C7, as stated. \<^verbatim>\<open>value\<close> is not on the prototype, so \<^verbatim>\<open>unit.lift('value', fn)\<close>
  succeeds; but \<^verbatim>\<open>instance.value()\<close> is still the own property and returns the stored
  value, not what the lifted operation gives.
\<close>

theorem monad_lift_value_shadowed:
  "monad_prototype ''value'' = None
   \<and> monad_lift monad_prototype ''value'' add_lifted
       = Inr (monad_prototype(''value'' \<mapsto> Lifted add_lifted))
   \<and> monad_call None (monad_prototype(''value'' \<mapsto> Lifted add_lifted))
        (Inst (Pm (Str ''x'')) []) ''value'' [] = Inr (Pm (Str ''x''))
   \<and> monad_bind None (Inst (Pm (Str ''x'')) []) add_lifted []
       = Inr (Inst (Pm (Str ''x - lifted'')) [])"
  by (simp add: monad_lift_def monad_prototype_def member_def add_lifted_def monad_unit_def)

text \<open>
  A property that the modifier assigns on the instance hides a lifted operation of the
  same name, as \<^verbatim>\<open>value\<close> does: with \<^verbatim>\<open>function (m, v) { m.l = 'own'; return v; }\<close> as
  modifier, \<^verbatim>\<open>instance.l\<close> is the string \<^verbatim>\<open>'own'\<close> after \<^verbatim>\<open>unit.lift('l', fn)\<close>, and the call
  \<^verbatim>\<open>instance.l()\<close> is a call of no function.
\<close>

lemma monad_lift_own_property_shadowed:
  "monad_unit (Some modifier_assigning_l) (Pm (Str ''x''))
       = Inr (Inst (Pm (Str ''x'')) [(''l'', Pm (Str ''own''))])
   \<and> monad_lift monad_prototype ''l'' add_lifted
       = Inr (monad_prototype(''l'' \<mapsto> Lifted add_lifted))
   \<and> member (monad_prototype(''l'' \<mapsto> Lifted add_lifted)) [(''l'', Pm (Str ''own''))] ''l''
       = Own (Pm (Str ''own''))
   \<and> monad_call (Some modifier_assigning_l) (monad_prototype(''l'' \<mapsto> Lifted add_lifted))
        (Inst (Pm (Str ''x'')) [(''l'', Pm (Str ''own''))]) ''l'' [] = Inl TypeError"
  by (simp add: monad_unit_def modifier_assigning_l_def monad_lift_def monad_prototype_def
      member_def)

section \<open>Properties of clone, merge and reduce\<close>

lemma cell_at_prefix: "prefix h h' \<Longrightarrow> cell_at h a = Some c \<Longrightarrow> cell_at h' a = Some c"
  by (auto simp: cell_at_def prefix_def nth_append split: if_splits)

lemma prefix_length: "prefix h h' \<Longrightarrow> length h \<le> length h'"
  by (auto simp: prefix_def)


lemma set_prop_length: "set_prop h a k v = Inr h' \<Longrightarrow> length h' = length h"
  by (auto simp: set_prop_def split: option.splits cell.splits if_splits val.splits)

lemma set_prop_other:
  "set_prop h dst k v = Inr h' \<Longrightarrow> a \<noteq> dst \<Longrightarrow> cell_at h' a = cell_at h a"
  by (auto simp: set_prop_def cell_at_def split: option.splits cell.splits if_splits val.splits)

lemma set_prop_prefix:
  "prefix h0 h \<Longrightarrow> length h0 \<le> dst \<Longrightarrow> set_prop h dst k v = Inr h' \<Longrightarrow> prefix h0 h'"
  by (auto simp: set_prop_def prefix_def list_update_append
      split: option.splits cell.splits if_splits val.splits)


lemma set_prop_plain_key:
  "cell_at h dst = Some (Obj ps) \<Longrightarrow> k \<noteq> ''__proto__'' \<Longrightarrow>
   \<exists>h'. set_prop h dst k v = Inr h' \<and> cell_at h' dst = Some (Obj (AList.update k v ps))"
  by (auto simp: set_prop_def cell_at_def split: if_splits)





lemma get_prop_cong: "cell_at h' a = cell_at h a \<Longrightarrow> get_prop h' a k = get_prop h a k"
  by (simp add: get_prop_def)



lemma clone_primitive:
  "p \<noteq> Null \<Longrightarrow> clone (Suc n) h (Prim p) = Inr (h, Prim p)"
  by (cases p)
    (simp_all add: instanceof_Array_def instanceof_Function_def instanceof_Object_def typeof_def)

lemma clone_function:
  "cell_at h a = Some Closure \<Longrightarrow> clone (Suc n) h (Ref a) = Inr (h, Ref a)"
  by (simp add: instanceof_Array_def instanceof_Function_def)

text \<open>
  C2. \<^verbatim>\<open>clone(null)\<close> does not return \<^verbatim>\<open>null\<close>: \<^verbatim>\<open>typeof null\<close> is \<^verbatim>\<open>'object'\<close>, so the call
  takes the object branch, where \<^verbatim>\<open>Object.keys(null)\<close> raises a TypeError, on every heap
  and with any room on the stack.
\<close>

theorem clone_null_throws: "clone (Suc n) h (Prim Null) = Inl TypeError"
  by (simp add: instanceof_Array_def instanceof_Function_def instanceof_Object_def typeof_def
      object_keys_def)

text \<open>
  C1. \<^verbatim>\<open>{a: null}\<close> is neither a function nor cyclic, and \<^verbatim>\<open>clone\<close> of it has no result
  to compare with it: the recursive call on the property raises the TypeError of
  \<^verbatim>\<open>clone(null)\<close>.
\<close>

theorem clone_null_property_throws:
  "clone (Suc (Suc n)) [Obj [(''a'', Prim Null)]] (Ref 0) = Inl TypeError"
  by (simp add: instanceof_Array_def instanceof_Function_def instanceof_Object_def typeof_def
      object_keys_def cell_at_def get_prop_def key_order_def index_of_def)

lemma reduce_two_arguments:
  "reduce h arr [f, z] = Inr (h @ [Arr [f, z]], Ref (length h))"
  by (simp add: reduce_def Array_call_def split: val.splits prim.splits)

text \<open>
  C9. \<^verbatim>\<open>reduce(arr, f, z)\<close> never looks at \<^verbatim>\<open>arr\<close> and never calls \<^verbatim>\<open>f\<close>: it returns a
  new array of the two elements \<^verbatim>\<open>f\<close> and \<^verbatim>\<open>z\<close>, where \<^verbatim>\<open>arr.reduce(f, z)\<close> folds \<^verbatim>\<open>f\<close>
  over the elements of \<^verbatim>\<open>arr\<close> from \<^verbatim>\<open>z\<close>. With the array \<^verbatim>\<open>[1, 2, 3]\<close> at address 0
  and a function at address 1, \<^verbatim>\<open>reduce(arr, f, 0)\<close> is the new array \<^verbatim>\<open>[f, 0]\<close>, whatever
  the function is.
\<close>

theorem reduce_returns_its_arguments:
  "reduce [Arr [Prim (Num 1), Prim (Num 2), Prim (Num 3)], Closure] (Ref 0)
       [Ref 1, Prim (Num 0)]
     = Inr ([Arr [Prim (Num 1), Prim (Num 2), Prim (Num 3)], Closure,
             Arr [Ref 1, Prim (Num 0)]], Ref 2)"
  by (simp add: reduce_def Array_call_def)

section \<open>clone copies a value without null\<close>

lemma key_order_set [simp]: "set (key_order ks) = set ks"
  by (auto simp: key_order_def)

lemma key_order_length [simp]: "length (key_order ks) = length ks"
proof -
  have "length (filter (\<lambda>k. index_of k \<noteq> None) ks) + length (filter (\<lambda>k. index_of k = None) ks)
          = length ks"
    using sum_length_filter_compl [of "\<lambda>k. index_of k \<noteq> None" ks] by simp
  then show ?thesis by (simp add: key_order_def)
qed

lemma key_order_distinct: "distinct ks \<Longrightarrow> distinct (key_order ks)"
  by (auto simp: key_order_def)

lemma key_order_idem: "key_order (key_order ks) = key_order ks"
proof -
  let ?f = "\<lambda>k. case index_of k of None \<Rightarrow> 0 | Some n \<Rightarrow> n"
  let ?A = "sort_key ?f (filter (\<lambda>k. index_of k \<noteq> None) ks)"
  let ?B = "filter (\<lambda>k. index_of k = None) ks"
  have a: "filter (\<lambda>k. index_of k \<noteq> None) (?A @ ?B) = ?A"
    by (auto simp: filter_empty_conv intro: filter_True)
  have b: "filter (\<lambda>k. index_of k = None) (?A @ ?B) = ?B"
    by (auto simp: filter_empty_conv)
  have "sort_key ?f ?A = ?A"
    by (rule sort_key_id_if_sorted) (rule sorted_sort_key)
  then show ?thesis
    unfolding key_order_def a b by simp
qed

lemma those_map_Some:
  "those (map f xs) = Some ys \<longleftrightarrow> list_all2 (\<lambda>x y. f x = Some y) xs ys"
proof (induction xs arbitrary: ys)
  case Nil
  show ?case by auto
next
  case (Cons x xs)
  show ?case
    by (cases ys) (auto simp: Cons.IH split: option.splits)
qed

lemma agree_prefix: "prefix h h' \<Longrightarrow> agree lo (length h) h h'"
  by (auto simp: agree_def cell_at_def prefix_def nth_append)

lemma agree_set_prop: "set_prop h dst k v = Inr h' \<Longrightarrow> dst < lo \<Longrightarrow> agree lo hi h h'"
  by (simp add: agree_def set_prop_other)

lemma agree_trans: "agree lo hi h1 h2 \<Longrightarrow> agree lo hi h2 h3 \<Longrightarrow> agree lo hi h1 h3"
  by (simp add: agree_def)

lemma agree_mono: "agree lo hi h H \<Longrightarrow> lo \<le> lo' \<Longrightarrow> hi' \<le> hi \<Longrightarrow> agree lo' hi' h H"
  by (simp add: agree_def)

lemma agree_refl: "agree lo hi h h"
  by (simp add: agree_def)

lemma copy_of_widen:
  assumes "copy_of d lo h' v t" and "lo' \<le> lo" and "agree lo (length h') h' h''"
    and "length h' \<le> length h''"
  shows "copy_of d lo' h'' v t"
  unfolding copy_of_def
proof (intro allI impI)
  fix H
  assume a: "agree lo' (length h'') h'' H" and c: "closures_at H t"
  from a assms(2,4) have "agree lo (length h') h'' H" by (rule agree_mono)
  with assms(3) have "agree lo (length h') h' H" by (rule agree_trans)
  with assms(1) c have "reify d H v = Some t" and "containers d H v \<subseteq> {lo ..< length h'}"
    by (auto simp: copy_of_def)
  with assms(2,4) show "reify d H v = Some t \<and> containers d H v \<subseteq> {lo' ..< length h''}"
    by auto
qed

lemma reify_prefix:
  "prefix h h' \<Longrightarrow> reify d h v = Some t \<Longrightarrow> reify d h' v = Some t"
proof (induction d arbitrary: v t)
  case 0
  then show ?case by simp
next
  case (Suc d)
  show ?case
  proof (cases v)
    case (Prim p)
    with Suc.prems show ?thesis by simp
  next
    case (Ref a)
    with Suc.prems(2) obtain c where c: "cell_at h a = Some c"
      by (auto split: option.splits)
    from cell_at_prefix [OF Suc.prems(1) c] have c': "cell_at h' a = Some c" .
    have g: "\<And>k. get_prop h' a k = get_prop h a k"
      using c c' by (intro get_prop_cong) simp
    show ?thesis
    proof (cases c)
      case (Arr xs)
      with Suc.prems(2) Ref c obtain ts where t: "t = JArr ts"
        and ts: "list_all2 (\<lambda>x t. reify d h x = Some t) xs ts"
        by (auto simp: those_map_Some)
      from ts have "list_all2 (\<lambda>x t. reify d h' x = Some t) xs ts"
        by (rule list_all2_mono) (rule Suc.IH [OF Suc.prems(1)])
      then have "those (map (reify d h') xs) = Some ts"
        by (simp add: those_map_Some)
      with Ref c' Arr t show ?thesis by simp
    next
      case (Obj ps)
      with Suc.prems(2) Ref c obtain ts where t: "t = JObj (zip (key_order (map fst ps)) ts)"
        and dist: "distinct (map fst ps)"
        and ts: "list_all2 (\<lambda>k t. reify d h (get_prop h a k) = Some t)
                   (key_order (map fst ps)) ts"
        by (auto simp: those_map_Some split: if_splits)
      from ts have "list_all2 (\<lambda>k t. reify d h' (get_prop h' a k) = Some t)
                      (key_order (map fst ps)) ts"
        unfolding g by (rule list_all2_mono) (rule Suc.IH [OF Suc.prems(1)])
      then have "those (map (\<lambda>k. reify d h' (get_prop h' a k)) (key_order (map fst ps)))
                   = Some ts"
        by (simp add: those_map_Some)
      with Ref c' Obj t dist show ?thesis by simp
    next
      case Closure
      with Suc.prems(2) Ref c c' show ?thesis by simp
    qed
  qed
qed

lemma map_clone_copies:
  assumes "clones d f"
  shows "list_all2 (\<lambda>x t. reify d h0 x = Some t) xs ts \<Longrightarrow> \<forall>t \<in> set ts. null_free t \<Longrightarrow>
         \<forall>t \<in> set ts. proto_free t \<Longrightarrow> prefix h0 h \<Longrightarrow>
         \<exists>h' ys. map_clone f h xs = Inr (h', ys) \<and> prefix h h' \<and>
                 list_all2 (copy_of d (length h) h') ys ts"
proof (induction xs arbitrary: ts h)
  case Nil
  then show ?case by simp
next
  case (Cons x xs)
  from Cons.prems(1) obtain t ts' where ts: "ts = t # ts'"
    and x: "reify d h0 x = Some t"
    and xs: "list_all2 (\<lambda>x t. reify d h0 x = Some t) xs ts'"
    by (auto simp: list_all2_Cons1)
  from Cons.prems(2) ts have nt: "null_free t" and nts: "\<forall>t \<in> set ts'. null_free t"
    by simp_all
  from Cons.prems(3) ts have pt: "proto_free t" and pts: "\<forall>t \<in> set ts'. proto_free t"
    by simp_all
  from reify_prefix [OF Cons.prems(4) x] have "reify d h x = Some t" .
  with assms nt pt obtain h1 y where
    f: "f h x = Inr (h1, y)" and p1: "prefix h h1" and c1: "copy_of d (length h) h1 y t"
    unfolding clones_def by blast
  from Cons.prems(4) p1 have "prefix h0 h1" by (rule prefix_order.trans)
  from Cons.IH [OF xs nts pts this] obtain h2 ys where
    m: "map_clone f h1 xs = Inr (h2, ys)" and p2: "prefix h1 h2"
    and c2: "list_all2 (copy_of d (length h1) h2) ys ts'"
    by blast
  have l1: "length h \<le> length h1" and l2: "length h1 \<le> length h2"
    using p1 p2 by (simp_all add: prefix_length)
  have "copy_of d (length h) h2 y t"
    using c1 _ agree_prefix [OF p2] l2 by (rule copy_of_widen) simp
  moreover have "list_all2 (copy_of d (length h) h2) ys ts'"
    using c2
  proof (rule list_all2_mono)
    fix y' t' assume "copy_of d (length h1) h2 y' t'"
    then show "copy_of d (length h) h2 y' t'"
      using l1 agree_refl by (rule copy_of_widen) simp
  qed
  moreover have "prefix h h2" using p1 p2 by (rule prefix_order.trans)
  ultimately show ?case using f m ts by simp
qed

lemma closures_at_JArr: "closures_at H (JArr ts) \<Longrightarrow> t \<in> set ts \<Longrightarrow> closures_at H t"
  by (auto simp: closures_at_def)

lemma closures_at_JObj:
  "closures_at H (JObj (zip ks ts)) \<Longrightarrow> length ks = length ts \<Longrightarrow> t \<in> set ts \<Longrightarrow>
   closures_at H t"
  by (auto simp: closures_at_def)

lemma copies_reify:
  assumes "list_all2 (copy_of d lo h') ys ts" and "agree lo (length h') h' H"
    and "\<forall>t \<in> set ts. closures_at H t"
  shows "those (map (reify d H) ys) = Some ts"
    and "(\<Union>y \<in> set ys. containers d H y) \<subseteq> {lo ..< length h'}"
proof -
  have 1: "list_all2 (\<lambda>y t. reify d H y = Some t \<and> containers d H y \<subseteq> {lo ..< length h'}) ys ts"
    using assms(1,3)
  proof (induction rule: list_all2_induct)
    case Nil
    show ?case by simp
  next
    case (Cons y ys t ts)
    then show ?case using assms(2) by (auto simp: copy_of_def)
  qed
  then have "list_all2 (\<lambda>y t. reify d H y = Some t) ys ts"
    by (rule list_all2_mono) simp
  then show "those (map (reify d H) ys) = Some ts"
    by (simp add: those_map_Some)
  show "(\<Union>y \<in> set ys. containers d H y) \<subseteq> {lo ..< length h'}"
  proof
    fix a assume "a \<in> (\<Union>y \<in> set ys. containers d H y)"
    then obtain y where y: "y \<in> set ys" and a: "a \<in> containers d H y" by blast
    from y obtain i where i: "i < length ys" "ys ! i = y" by (auto simp: in_set_conv_nth)
    from list_all2_nthD [OF 1 i(1)] i(2) a show "a \<in> {lo ..< length h'}" by auto
  qed
qed

lemma copy_of_array:
  assumes "list_all2 (copy_of d (length h) h1) ys ts" and "prefix h h1"
  shows "copy_of (Suc d) (length h) (h1 @ [Arr ys]) (Ref (length h1)) (JArr ts)"
  unfolding copy_of_def
proof (intro allI impI)
  fix H
  assume a: "agree (length h) (length (h1 @ [Arr ys])) (h1 @ [Arr ys]) H"
    and c: "closures_at H (JArr ts)"
  have le: "length h \<le> length h1" using assms(2) by (rule prefix_length)
  from a le have cell: "cell_at H (length h1) = Some (Arr ys)"
    by (simp add: agree_def cell_at_def)
  have "agree (length h) (length h1) h1 H"
    using a by (auto simp: agree_def cell_at_def nth_append)
  moreover have "\<forall>t \<in> set ts. closures_at H t"
    using c by (auto intro: closures_at_JArr)
  ultimately have "those (map (reify d H) ys) = Some ts"
    and "(\<Union>y \<in> set ys. containers d H y) \<subseteq> {length h ..< length h1}"
    using copies_reify [OF assms(1)] by blast+
  with cell le
  show "reify (Suc d) H (Ref (length h1)) = Some (JArr ts) \<and>
        containers (Suc d) H (Ref (length h1)) \<subseteq> {length h ..< length (h1 @ [Arr ys])}"
    by auto
qed

lemma update_fresh_key:
  "k \<notin> set ks \<Longrightarrow> length ys = length ks \<Longrightarrow>
   AList.update k y (zip ks ys) = zip (ks @ [k]) (ys @ [y])"
proof (induction ks arbitrary: ys)
  case Nil
  then show ?case by simp
next
  case (Cons k' ks)
  then show ?case by (cases ys) auto
qed

lemma get_prop_prefix:
  "prefix h h' \<Longrightarrow> cell_at h a = Some c \<Longrightarrow> get_prop h' a k = get_prop h a k"
  using cell_at_prefix [of h h' a c] by (simp add: get_prop_def)

lemma clone_props_copies:
  assumes "clones d f" and "cell_at h0 src = Some c" and "dst = length h0"
  shows "list_all2 (\<lambda>k t. reify d h0 (get_prop h0 src k) = Some t) ks ts \<Longrightarrow>
         \<forall>t \<in> set ts. null_free t \<Longrightarrow> \<forall>t \<in> set ts. proto_free t \<Longrightarrow>
         ''__proto__'' \<notin> set ks \<Longrightarrow>
         prefix h0 h \<Longrightarrow> cell_at h dst = Some (Obj (zip kd yd)) \<Longrightarrow> length yd = length kd \<Longrightarrow>
         distinct (kd @ ks) \<Longrightarrow> list_all2 (copy_of d (Suc dst) h) yd td \<Longrightarrow>
         \<exists>h' ys. clone_props f src dst h ks = Inr h' \<and> prefix h0 h' \<and>
                 cell_at h' dst = Some (Obj (zip (kd @ ks) (yd @ ys))) \<and>
                 length ys = length ks \<and>
                 list_all2 (copy_of d (Suc dst) h') (yd @ ys) (td @ ts)"
proof (induction ks arbitrary: ts h kd yd td)
  case Nil
  then show ?case by simp
next
  case (Cons k ks)
  from Cons.prems(1) obtain t ts' where ts: "ts = t # ts'"
    and x: "reify d h0 (get_prop h0 src k) = Some t"
    and xs: "list_all2 (\<lambda>k t. reify d h0 (get_prop h0 src k) = Some t) ks ts'"
    by (auto simp: list_all2_Cons1)
  from Cons.prems(2) ts have nt: "null_free t" and nts: "\<forall>t \<in> set ts'. null_free t"
    by simp_all
  from Cons.prems(3) ts have pt: "proto_free t" and pts: "\<forall>t \<in> set ts'. proto_free t"
    by simp_all
  from Cons.prems(4) have kp: "k \<noteq> ''__proto__''" and ksp: "''__proto__'' \<notin> set ks"
    by auto
  note pre = Cons.prems(5) and cell0 = Cons.prems(6) and len0 = Cons.prems(7)
    and dist0 = Cons.prems(8) and cop0 = Cons.prems(9)
  have dlt: "dst < length h"
    using cell0 by (auto simp: cell_at_def split: if_splits)
  have g: "get_prop h src k = get_prop h0 src k"
    using cell_at_prefix [OF pre assms(2)] assms(2) by (intro get_prop_cong) simp
  from reify_prefix [OF pre x] have "reify d h (get_prop h src k) = Some t"
    by (simp add: g)
  with assms(1) nt pt obtain h1 y where
    f: "f h (get_prop h src k) = Inr (h1, y)" and p1: "prefix h h1"
    and c1: "copy_of d (length h) h1 y t"
    unfolding clones_def by blast
  have l1: "length h \<le> length h1" using p1 by (rule prefix_length)
  have cell1: "cell_at h1 dst = Some (Obj (zip kd yd))"
    using cell_at_prefix [OF p1 cell0] .
  have knew: "k \<notin> set kd" using dist0 by auto
  from set_prop_plain_key [OF cell1 kp, of y] obtain h2 where
    s: "set_prop h1 dst k y = Inr h2"
    and cell2: "cell_at h2 dst = Some (Obj (AList.update k y (zip kd yd)))"
    by blast
  have l2: "length h2 = length h1" using s by (rule set_prop_length)
  have p0: "prefix h0 h2"
    using prefix_order.trans [OF pre p1] _ s by (rule set_prop_prefix) (simp add: assms(3))
  have cell: "cell_at h2 dst = Some (Obj (zip (kd @ [k]) (yd @ [y])))"
    using cell2 update_fresh_key [OF knew len0, of y] by simp
  have len: "length (yd @ [y]) = length (kd @ [k])"
    using len0 by simp
  have dist: "distinct ((kd @ [k]) @ ks)"
    using dist0 by simp
  have ag2: "\<And>hi. agree (Suc dst) hi h1 h2"
    using s by (rule agree_set_prop) simp
  have ag1: "agree (Suc dst) (length h) h h2"
    using agree_prefix [OF p1, of "Suc dst"] ag2 by (rule agree_trans)
  have old: "list_all2 (copy_of d (Suc dst) h2) yd td"
    using cop0
  proof (rule list_all2_mono)
    fix y' t' assume "copy_of d (Suc dst) h y' t'"
    then show "copy_of d (Suc dst) h2 y' t'"
      using _ ag1 by (rule copy_of_widen) (simp_all add: l1 l2)
  qed
  have new: "copy_of d (Suc dst) h2 y t"
    using c1
  proof (rule copy_of_widen)
    show "Suc dst \<le> length h" using dlt by simp
    show "agree (length h) (length h1) h1 h2"
      using s dlt by (rule agree_set_prop)
    show "length h1 \<le> length h2" by (simp add: l2)
  qed
  have all: "list_all2 (copy_of d (Suc dst) h2) (yd @ [y]) (td @ [t])"
    using old new by (simp add: list_all2_appendI)
  from Cons.IH [OF xs nts pts ksp p0 cell len dist all] obtain h' ys where
    r: "clone_props f src dst h2 ks = Inr h'" and p': "prefix h0 h'"
    and cell': "cell_at h' dst = Some (Obj (zip ((kd @ [k]) @ ks) ((yd @ [y]) @ ys)))"
    and len': "length ys = length ks"
    and all': "list_all2 (copy_of d (Suc dst) h') ((yd @ [y]) @ ys) ((td @ [t]) @ ts')"
    by blast
  show ?case
    using f s r p' cell' len' all' ts
    by (intro exI [of _ h'] exI [of _ "y # ys"]) simp
qed

lemma get_prop_zip:
  assumes "cell_at H a = Some (Obj (zip ks ys))" and "length ys = length ks" and "distinct ks"
    and "i < length ks"
  shows "get_prop H a (ks ! i) = ys ! i"
proof -
  have "(ks ! i, ys ! i) \<in> set (zip ks ys)"
    using assms(2,4) by (auto simp: set_zip)
  moreover have "distinct (map fst (zip ks ys))"
    using assms(2,3) by simp
  ultimately have "map_of (zip ks ys) (ks ! i) = Some (ys ! i)"
    by (intro map_of_is_SomeI)
  with assms(1) show ?thesis by (simp add: get_prop_def)
qed

lemma copy_of_object:
  assumes "cell_at h' (length h) = Some (Obj (zip ks ys))" and "length ys = length ks"
    and "distinct ks" and "key_order ks = ks"
    and "list_all2 (copy_of d (Suc (length h)) h') ys ts"
  shows "copy_of (Suc d) (length h) h' (Ref (length h)) (JObj (zip ks ts))"
  unfolding copy_of_def
proof (intro allI impI)
  fix H
  assume a: "agree (length h) (length h') h' H" and c: "closures_at H (JObj (zip ks ts))"
  have lt: "length h < length h'"
    using assms(1) by (auto simp: cell_at_def split: if_splits)
  have lts: "length ks = length ts"
    using assms(2) list_all2_lengthD [OF assms(5)] by simp
  from a lt assms(1) have cell: "cell_at H (length h) = Some (Obj (zip ks ys))"
    by (simp add: agree_def)
  have keys: "map fst (zip ks ys) = ks" and vals: "map snd (zip ks ys) = ys"
    using assms(2) by simp_all
  have "agree (Suc (length h)) (length h') h' H"
    using a by (rule agree_mono) simp_all
  moreover have "\<forall>t \<in> set ts. closures_at H t"
    using c lts by (auto intro: closures_at_JObj)
  ultimately have th: "those (map (reify d H) ys) = Some ts"
    and co: "(\<Union>y \<in> set ys. containers d H y) \<subseteq> {Suc (length h) ..< length h'}"
    using copies_reify [OF assms(5)] by blast+
  have "map (\<lambda>k. reify d H (get_prop H (length h) k)) ks = map (reify d H) ys"
  proof (rule nth_equalityI)
    show "length (map (\<lambda>k. reify d H (get_prop H (length h) k)) ks)
            = length (map (reify d H) ys)"
      using assms(2) by simp
  next
    fix i assume "i < length (map (\<lambda>k. reify d H (get_prop H (length h) k)) ks)"
    then have i: "i < length ks" by simp
    with get_prop_zip [OF cell assms(2,3) i] assms(2)
    show "map (\<lambda>k. reify d H (get_prop H (length h) k)) ks ! i = map (reify d H) ys ! i"
      by simp
  qed
  with th have th': "those (map (\<lambda>k. reify d H (get_prop H (length h) k)) ks) = Some ts"
    by simp
  have r: "reify (Suc d) H (Ref (length h)) = Some (JObj (zip ks ts))"
    using cell th' assms(3,4) by (simp add: keys)
  have "containers (Suc d) H (Ref (length h)) = insert (length h) (\<Union>y \<in> set ys. containers d H y)"
    using cell by (simp add: vals del: map_map)
  with co lt have "containers (Suc d) H (Ref (length h)) \<subseteq> {length h ..< length h'}"
    by auto
  with r show "reify (Suc d) H (Ref (length h)) = Some (JObj (zip ks ts)) \<and>
        containers (Suc d) H (Ref (length h)) \<subseteq> {length h ..< length h'}"
    by simp
qed

lemma clone_clones: "d \<le> n \<Longrightarrow> clones d (clone n)"
proof (induction d arbitrary: n)
  case 0
  show ?case by (simp add: clones_def)
next
  case (Suc d)
  then obtain m where n: "n = Suc m" and dm: "d \<le> m"
    by (cases n) auto
  note ih = Suc.IH [OF dm]
  show ?case
    unfolding clones_def n
  proof (intro allI impI)
    fix h x t
    assume r: "reify (Suc d) h x = Some t" and nf: "null_free t" and pf: "proto_free t"
    show "\<exists>h' y. clone (Suc m) h x = Inr (h', y) \<and> prefix h h' \<and>
                 copy_of (Suc d) (length h) h' y t"
    proof (cases x)
      case (Prim p)
      with r nf have t: "t = P p" and p: "p \<noteq> Null" by auto
      have "copy_of (Suc d) (length h) h (Prim p) (P p)"
        by (simp add: copy_of_def)
      with clone_primitive [OF p, of m h] Prim t show ?thesis by auto
    next
      case (Ref a)
      with r obtain c where c: "cell_at h a = Some c"
        by (auto split: option.splits)
      show ?thesis
      proof (cases c)
        case Closure
        with r Ref c have t: "t = JFun a" by simp
        have "copy_of (Suc d) (length h) h (Ref a) (JFun a)"
          by (simp add: copy_of_def closures_at_def)
        with clone_function [of h a m] c Closure Ref t show ?thesis by auto
      next
        case (Arr xs)
        with r Ref c obtain ts where t: "t = JArr ts"
          and ts: "list_all2 (\<lambda>x t. reify d h x = Some t) xs ts"
          by (auto simp: those_map_Some)
        from nf t have nts: "\<forall>t \<in> set ts. null_free t" by simp
        from pf t have pts: "\<forall>t \<in> set ts. proto_free t" by simp
        from map_clone_copies [OF ih ts nts pts prefix_order.refl] obtain h1 ys where
          m: "map_clone (clone m) h xs = Inr (h1, ys)" and p1: "prefix h h1"
          and cs: "list_all2 (copy_of d (length h) h1) ys ts"
          by blast
        have "clone (Suc m) h x = Inr (h1 @ [Arr ys], Ref (length h1))"
          using Ref c Arr m by (simp add: instanceof_Array_def)
        moreover have "prefix h (h1 @ [Arr ys])"
          using p1 by (auto simp: prefix_def)
        moreover note copy_of_array [OF cs p1]
        ultimately show ?thesis using t by auto
      next
        case (Obj ps)
        let ?ks = "key_order (map fst ps)"
        from r Ref c Obj obtain ts where t: "t = JObj (zip ?ks ts)"
          and dist: "distinct (map fst ps)"
          and ts: "list_all2 (\<lambda>k t. reify d h (get_prop h a k) = Some t) ?ks ts"
          by (auto simp: those_map_Some split: if_splits)
        have lts: "length ts = length ?ks"
          using list_all2_lengthD [OF ts] by simp
        from nf t lts have nts: "\<forall>t \<in> set ts. null_free t" by simp
        from pf t lts have pts: "\<forall>t \<in> set ts. proto_free t"
          and kp: "''__proto__'' \<notin> set ?ks"
          by simp_all
        note cell = c [unfolded Obj]
        have dks: "distinct ([] @ ?ks)"
          using dist by (simp add: key_order_distinct)
        have start: "cell_at (h @ [Obj []]) (length h) = Some (Obj (zip [] []))"
          by (simp add: cell_at_def)
        have pre: "prefix h (h @ [Obj []])" by simp
        from clone_props_copies [OF ih cell refl ts nts pts kp pre start _ dks, of "[]"]
        obtain h' ys where
          cp: "clone_props (clone m) a (length h) (h @ [Obj []]) ?ks = Inr h'"
          and p': "prefix h h'"
          and cell': "cell_at h' (length h) = Some (Obj (zip ?ks ys))"
          and len: "length ys = length ?ks"
          and cs: "list_all2 (copy_of d (Suc (length h)) h') ys ts"
          by auto
        have "clone (Suc m) h x = Inr (h', Ref (length h))"
          using Ref cell cp
          by (simp add: instanceof_Array_def instanceof_Function_def instanceof_Object_def
              object_keys_def)
        moreover note copy_of_object [OF cell' len _ key_order_idem cs]
        ultimately show ?thesis using p' t dist by (auto simp: key_order_distinct)
      qed
    qed
  qed
qed

lemma reify_closures: "reify d h v = Some t \<Longrightarrow> closures_at h t"
proof (induction d arbitrary: v t)
  case 0
  then show ?case by simp
next
  case (Suc d)
  show ?case
  proof (cases v)
    case (Prim p)
    with Suc.prems show ?thesis by (auto simp: closures_at_def)
  next
    case (Ref a)
    with Suc.prems obtain c where c: "cell_at h a = Some c"
      by (auto split: option.splits)
    show ?thesis
    proof (cases c)
      case Closure
      with Suc.prems Ref c show ?thesis by (auto simp: closures_at_def)
    next
      case (Arr xs)
      with Suc.prems Ref c obtain ts where t: "t = JArr ts"
        and ts: "list_all2 (\<lambda>x t. reify d h x = Some t) xs ts"
        by (auto simp: those_map_Some)
      have "\<And>t'. t' \<in> set ts \<Longrightarrow> closures_at h t'"
      proof -
        fix t' assume "t' \<in> set ts"
        then obtain i where i: "i < length ts" "ts ! i = t'" by (auto simp: in_set_conv_nth)
        from list_all2_nthD2 [OF ts i(1)] i(2) have "reify d h (xs ! i) = Some t'" by simp
        then show "closures_at h t'" by (rule Suc.IH)
      qed
      then show ?thesis
        unfolding t by (auto simp: closures_at_def)
    next
      case (Obj ps)
      let ?ks = "key_order (map fst ps)"
      from Suc.prems Ref c Obj obtain ts where t: "t = JObj (zip ?ks ts)"
        and ts: "list_all2 (\<lambda>k t. reify d h (get_prop h a k) = Some t) ?ks ts"
        by (auto simp: those_map_Some split: if_splits)
      have "\<And>t'. t' \<in> set ts \<Longrightarrow> closures_at h t'"
      proof -
        fix t' assume "t' \<in> set ts"
        then obtain i where i: "i < length ts" "ts ! i = t'" by (auto simp: in_set_conv_nth)
        from list_all2_nthD2 [OF ts i(1)] i(2)
        have "reify d h (get_prop h a (?ks ! i)) = Some t'" by simp
        then show "closures_at h t'" by (rule Suc.IH)
      qed
      then show ?thesis
        unfolding t by (auto simp: closures_at_def dest: set_zip_rightD)
    qed
  qed
qed

lemma containers_bound: "a \<in> containers d h v \<Longrightarrow> a < length h"
proof (induction d arbitrary: v)
  case 0
  then show ?case by simp
next
  case (Suc d)
  show ?case
  proof (cases v)
    case (Prim p)
    with Suc.prems show ?thesis by simp
  next
    case (Ref b)
    with Suc.prems obtain c where c: "cell_at h b = Some c"
      by (auto split: option.splits)
    then have b: "b < length h" by (auto simp: cell_at_def split: if_splits)
    from Suc.prems Ref c b Suc.IH show ?thesis
      by (cases c) auto
  qed
qed

text \<open>
  What \<^verbatim>\<open>clone\<close> does apart from \<^verbatim>\<open>null\<close>: for a value with a tree \<open>t\<close> of depth \<open>d\<close>
  (so not cyclic) in which neither \<^verbatim>\<open>null\<close> nor the key \<^verbatim>\<open>__proto__\<close> occurs, and with
  room for \<open>d\<close> nested calls, \<^verbatim>\<open>clone\<close> returns; it leaves every cell of the heap as it
  was; its result has the same tree \<open>t\<close>, functions included by reference; and every
  array and object of the result is a cell allocated by the call, so none is shared
  with the argument.
\<close>

lemma clone_deep_equal_fresh:
  assumes "reify d h v = Some t" and "null_free t" and "proto_free t" and "d \<le> n"
  shows "\<exists>h' v'. clone n h v = Inr (h', v') \<and> prefix h h' \<and> reify d h' v' = Some t \<and>
           containers d h' v' \<subseteq> {length h ..< length h'} \<and>
           containers d h' v' \<inter> containers d h v = {}"
proof -
  from clone_clones [OF assms(4)] assms(1,2,3) obtain h' v' where
    c: "clone n h v = Inr (h', v')" and p: "prefix h h'"
    and cp: "copy_of d (length h) h' v' t"
    unfolding clones_def by blast
  have "closures_at h' t"
    using reify_closures [OF assms(1)] cell_at_prefix [OF p]
    by (simp add: closures_at_def)
  with cp agree_refl have r: "reify d h' v' = Some t"
    and f: "containers d h' v' \<subseteq> {length h ..< length h'}"
    unfolding copy_of_def by blast+
  have "containers d h' v' \<inter> containers d h v = {}"
    using f containers_bound [of _ d h v] by fastforce
  with c p r f show ?thesis by blast
qed

lemma heap_example_tree:
  "reify 3 heap_example (Ref 0)
     = Some (JObj [(''a'', P (Num 1)), (''b'', JObj [(''c'', P (Num 2))])])"
  by (simp add: heap_example_def eval_nat_numeral cell_at_def get_prop_def key_order_def
      index_of_def)

lemma clone_deep_equal_fresh_example:
  "reify 3 heap_example (Ref 0)
     = Some (JObj [(''a'', P (Num 1)), (''b'', JObj [(''c'', P (Num 2))])])
   \<and> null_free (JObj [(''a'', P (Num 1)), (''b'', JObj [(''c'', P (Num 2))])])
   \<and> proto_free (JObj [(''a'', P (Num 1)), (''b'', JObj [(''c'', P (Num 2))])])
   \<and> (\<exists>h' v'. clone 3 heap_example (Ref 0) = Inr (h', v')
         \<and> reify 3 h' v' = Some (JObj [(''a'', P (Num 1)), (''b'', JObj [(''c'', P (Num 2))])])
         \<and> containers 3 h' v' \<inter> containers 3 heap_example (Ref 0) = {})"
proof -
  note r = heap_example_tree
  have n: "null_free (JObj [(''a'', P (Num 1)), (''b'', JObj [(''c'', P (Num 2))])])"
    by simp
  have p: "proto_free (JObj [(''a'', P (Num 1)), (''b'', JObj [(''c'', P (Num 2))])])"
    by simp
  from clone_deep_equal_fresh [OF r n p order_refl] r n p show ?thesis by blast
qed

section \<open>merge\<close>

text \<open>
  The null inside \<^verbatim>\<open>base\<close> that makes \<^verbatim>\<open>clone\<close> raise makes \<^verbatim>\<open>merge\<close> raise:
  \<^verbatim>\<open>merge({a: null}, {})\<close> ends in the TypeError of \<^verbatim>\<open>clone(null)\<close>.
\<close>

lemma merge_null_property_throws:
  "merge (Suc (Suc n)) [Obj [(''a'', Prim Null)], Obj []] (Ref 0) (Ref 1) = Inl TypeError"
  by (simp add: merge_def is_mapping_def instanceof_Array_def instanceof_Function_def
      instanceof_Object_def typeof_def object_keys_def cell_at_def get_prop_def key_order_def
      index_of_def)




end
